theory Spec2Isabelle
  imports Main "HOL-Library.Char_ord" "HOL-Library.List_Lexorder" "HOL-Library.AList"
begin

section \<open>The world the pipeline runs in\<close>

text \<open>
  The two modules \<^verbatim>\<open>src/prepare_input_layers.py\<close> and
  \<^verbatim>\<open>src/download_input_layers.py\<close> act on a file system, on the GIS engine that is
  handed to them as the parameter \<^verbatim>\<open>arcpy\<close>, and on the network. All three are
  made explicit: the file system is an association list from path strings to nodes, every
  call into the engine is appended to a log, and every HTTP request and every
  \<^verbatim>\<open>time.sleep\<close> to a trace. Paths are the strings the code passes around, in pathlib's normal
  form with \<^verbatim>\<open>/\<close> as separator. Creating a directory and deleting an existing
  entry always succeed in this store; printing and wall-clock timing are left out.
\<close>

type_synonym path = string
type_synonym bytes = string

datatype node = File bytes | Dir

type_synonym filesystem = "(path \<times> node) list"

datatype error =
    TypeError string
  | ValueError string
  | KeyError string
  | FileNotFoundError string
  | RuntimeError string
  | RecursionError
  | ExecuteError string
  | TransportError
  | HTTPError nat
  | BadZipFile
  | JSONDecodeError
  | CalledProcessError

text \<open>The geoprocessing tools the preparation module invokes, with the arguments it passes.\<close>

datatype tool =
    CreateFileGDB path string
  | CreateSQLiteDatabase path
  | Project path path int
  | Delete path
  | FeatureClassToFeatureClass path path string
  | CopyRaster path path
  | DefineProjection path int
  | ProjectRaster path path int string
  | MosaicToNewRaster "path list" path string

datatype ecall =
    EnvOverwriteOutput bool
  | Exists path
  | Describe path
  | Run tool

text \<open>
  \<^verbatim>\<open>arcpy.Describe(d).spatialReference\<close> is either \<^verbatim>\<open>None\<close> or an object whose
  \<^verbatim>\<open>factoryCode\<close> attribute may be missing.
\<close>

datatype sref = NoSpatialRef | SpatialRef "int option"

text \<open>
  The engine is opaque: what it reports and what its tools do to the file system are
  parameters of every function that receives \<^verbatim>\<open>arcpy\<close>.
\<close>

record engine =
  eng_exists :: "filesystem \<Rightarrow> path \<Rightarrow> bool"
  eng_describe :: "filesystem \<Rightarrow> path \<Rightarrow> error + sref"
  eng_run :: "tool \<Rightarrow> filesystem \<Rightarrow> error + filesystem"

text \<open>
  What the download module does to the outside: an HTTP GET with its \<^verbatim>\<open>Range\<close> header
  (if any), a \<^verbatim>\<open>time.sleep\<close>, and the three operations of the streaming fetcher on
  files: opening (\<open>True\<close> for mode \<^verbatim>\<open>"ab"\<close>, \<open>False\<close> for \<^verbatim>\<open>"wb"\<close>), writing a
  chunk, and renaming. A call of \<^verbatim>\<open>write_bytes\<close> is on the trace as well.
\<close>

datatype io_event =
    Request string "string option"
  | Sleep int
  | Open path bool
  | Append path bytes
  | Replace path path
  | Write path

record world =
  fs :: filesystem
  elog :: "ecall list"
  trace :: "io_event list"

type_synonym 'a run = "world \<Rightarrow> (error + 'a) \<times> world"

definition ret :: "'a \<Rightarrow> 'a run" where
  "ret x w = (Inr x, w)"

definition raise :: "error \<Rightarrow> 'a run" where
  "raise e w = (Inl e, w)"

definition bindR :: "'a run \<Rightarrow> ('a \<Rightarrow> 'b run) \<Rightarrow> 'b run" where
  "bindR m f w = (case m w of (Inl e, w') \<Rightarrow> (Inl e, w') | (Inr x, w') \<Rightarrow> f x w')"

text \<open>
  A Python call binds its positional arguments before the body runs; a required parameter
  left without an argument raises \<^verbatim>\<open>TypeError\<close> at the call.
\<close>

fun py_call2 :: "string \<Rightarrow> ('a \<Rightarrow> 'b \<Rightarrow> 'c run) \<Rightarrow> 'a option \<Rightarrow> 'b option \<Rightarrow> 'c run" where
  "py_call2 name f (Some a) (Some b) = f a b"
| "py_call2 name f _ _ = raise (TypeError name)"

subsection \<open>Strings and paths\<close>

fun digit_char :: "nat \<Rightarrow> char" where
  "digit_char n = char_of (48 + n)"

fun str_nat :: "nat \<Rightarrow> string" where
  "str_nat n = (if n < 10 then [digit_char n] else str_nat (n div 10) @ [digit_char (n mod 10)])"

declare str_nat.simps [simp del]

definition str_int :: "int \<Rightarrow> string" where
  "str_int i = (if i < 0 then CHR ''-'' # str_nat (nat (- i)) else str_nat (nat i))"

definition path_join :: "path \<Rightarrow> string \<Rightarrow> path" where
  "path_join p n = p @ ''/'' @ n"

text \<open>
  pathlib's \<^verbatim>\<open>name\<close>: the last component, empty for the current directory and for a
  root. As \<^verbatim>\<open>Path\<close> objects such paths always exist.
\<close>

definition path_name :: "path \<Rightarrow> string" where
  "path_name p = (if p = ''.'' then [] else rev (takeWhile (\<lambda>c. c \<noteq> CHR ''/'') (rev p)))"

definition path_parent :: "path \<Rightarrow> path" where
  "path_parent p =
     (let d = dropWhile (\<lambda>c. c \<noteq> CHR ''/'') (rev p)
      in if d = [] then ''.'' else if tl d = [] then ''/'' else rev (tl d))"

text \<open>
  pathlib's \<^verbatim>\<open>suffix\<close>: the part of the name from its last dot on, unless that dot
  opens or closes the name.
\<close>

definition path_suffix :: "path \<Rightarrow> string" where
  "path_suffix p =
     (let n = path_name p; e = rev (takeWhile (\<lambda>c. c \<noteq> CHR ''.'') (rev n))
      in if CHR ''.'' \<in> set n \<and> e \<noteq> [] \<and> Suc (length e) < length n then CHR ''.'' # e else [])"

definition path_stem :: "path \<Rightarrow> string" where
  "path_stem p = (let n = path_name p in take (length n - length (path_suffix p)) n)"

definition with_suffix :: "path \<Rightarrow> string \<Rightarrow> error + path" where
  "with_suffix p s =
     (if path_name p = [] then Inl (ValueError ''empty name'')
      else Inr (take (length p - length (path_suffix p)) p @ s))"

definition has_suffix :: "string \<Rightarrow> string \<Rightarrow> bool" where
  "has_suffix s n = (length s \<le> length n \<and> drop (length n - length s) n = s)"

subsection \<open>File-system primitives\<close>

text \<open>
  The file system is a flat table from path strings to nodes, and paths are compared as
  strings. \<^verbatim>\<open>mkdir\<close> is the call with \<^verbatim>\<open>exist_ok=True\<close> that the source makes
  everywhere: it enters the directory itself and not its parents, and a path that is
  already in the table, be it a file, is left as it is where Python would raise. The
  entries of a directory are the paths written with its name and a slash in front, so
  the directory \<^verbatim>\<open>.\<close> and the roots have entries only under that spelling.
\<close>

definition fs_exists :: "filesystem \<Rightarrow> path \<Rightarrow> bool" where
  "fs_exists f p = (map_of f p \<noteq> None)"

definition fs_mkdir :: "path \<Rightarrow> filesystem \<Rightarrow> filesystem" where
  "fs_mkdir p f = (if fs_exists f p then f else f @ [(p, Dir)])"

definition fs_unlink :: "path \<Rightarrow> filesystem \<Rightarrow> filesystem" where
  "fs_unlink p f = AList.delete p f"

definition fs_write :: "path \<Rightarrow> bytes \<Rightarrow> filesystem \<Rightarrow> filesystem" where
  "fs_write p b f = AList.update p (File b) f"

definition is_child :: "path \<Rightarrow> path \<Rightarrow> bool" where
  "is_child d p =
     (let k = Suc (length d); n = drop k p
      in take k p = d @ ''/'' \<and> n \<noteq> [] \<and> CHR ''/'' \<notin> set n)"

text \<open>\<^verbatim>\<open>Path(d).glob("*.tif")\<close>: the entries directly inside \<open>d\<close> whose name ends in \<^verbatim>\<open>.tif\<close>.\<close>

definition glob_tif :: "filesystem \<Rightarrow> path \<Rightarrow> path list" where
  "glob_tif f d = filter (\<lambda>p. is_child d p \<and> has_suffix ''.tif'' p) (map fst f)"

section \<open>src/prepare_input_layers.py\<close>

subsection \<open>Path helpers\<close>

definition RASTER_KEYS :: "string set" where
  "RASTER_KEYS = {''dem'', ''watertable'', ''rainfall'', ''slope''}"

definition path_exists :: "world \<Rightarrow> path \<Rightarrow> bool" where
  "path_exists w p = fs_exists (fs w) p"

definition ensure_dir :: "path \<Rightarrow> unit run" where
  "ensure_dir p w = (Inr (), w\<lparr>fs := fs_mkdir p (fs w)\<rparr>)"

definition raster_subfolder_path :: "path \<Rightarrow> error + path" where
  "raster_subfolder_path prepared_tif_path =
     (case with_suffix prepared_tif_path [] of
        Inl e \<Rightarrow> Inl e
      | Inr folder \<Rightarrow> Inr (path_join folder (path_name prepared_tif_path)))"

definition raster_outpath_in_subfolder :: "path \<Rightarrow> string \<Rightarrow> path run" where
  "raster_outpath_in_subfolder prepared_folder raster_name =
     bindR (ensure_dir prepared_folder)
       (\<lambda>_. ret (path_join prepared_folder (raster_name @ ''.tif'')))"

definition prepared_exists :: "world \<Rightarrow> string \<Rightarrow> path \<Rightarrow> error + bool" where
  "prepared_exists w key p =
     (if key \<in> RASTER_KEYS
      then (case raster_subfolder_path p of Inl e \<Rightarrow> Inl e | Inr q \<Rightarrow> Inr (path_exists w q))
      else Inr (path_exists w p))"

subsection \<open>Engine helpers\<close>

definition env_overwriteOutput :: "bool \<Rightarrow> unit run" where
  "env_overwriteOutput b w = (Inr (), w\<lparr>elog := elog w @ [EnvOverwriteOutput b]\<rparr>)"

definition arcpy_Exists :: "engine \<Rightarrow> path \<Rightarrow> bool run" where
  "arcpy_Exists eng p w = (Inr (eng_exists eng (fs w) p), w\<lparr>elog := elog w @ [Exists p]\<rparr>)"

definition arcpy_run :: "engine \<Rightarrow> tool \<Rightarrow> unit run" where
  "arcpy_run eng t w =
     (let w1 = w\<lparr>elog := elog w @ [Run t]\<rparr>
      in case eng_run eng t (fs w) of
           Inl e \<Rightarrow> (Inl e, w1)
         | Inr f \<Rightarrow> (Inr (), w1\<lparr>fs := f\<rparr>))"

definition epsg_of_dataset :: "engine \<Rightarrow> path \<Rightarrow> int option run" where
  "epsg_of_dataset eng dataset w =
     (let w1 = w\<lparr>elog := elog w @ [Describe dataset]\<rparr>
      in case eng_describe eng (fs w) dataset of
           Inl e \<Rightarrow> (Inl e, w1)
         | Inr NoSpatialRef \<Rightarrow> (Inr None, w1)
         | Inr (SpatialRef code) \<Rightarrow>
             (Inr (if code \<noteq> None \<and> code \<noteq> Some 0 then code else None), w1))"

definition gpkg_layer_path :: "path \<Rightarrow> string \<Rightarrow> path" where
  "gpkg_layer_path gpkg_path layer_name = path_join gpkg_path layer_name"

definition ensure_scratch_gdb :: "engine \<Rightarrow> path \<Rightarrow> string \<Rightarrow> path run" where
  "ensure_scratch_gdb eng temp_dir name =
     bindR (ensure_dir temp_dir) (\<lambda>_.
     let gdb_path = path_join temp_dir name in
     bindR (arcpy_Exists eng gdb_path) (\<lambda>ex.
     bindR (if \<not> ex then arcpy_run eng (CreateFileGDB temp_dir name) else ret ()) (\<lambda>_.
     ret gdb_path)))"

subsection \<open>Vector prep\<close>

definition prep_vector_to_gpkg ::
  "engine \<Rightarrow> path \<Rightarrow> path \<Rightarrow> string \<Rightarrow> int \<Rightarrow> path \<Rightarrow> bool \<Rightarrow> path run" where
  "prep_vector_to_gpkg eng src_fc out_gpkg out_layer target_epsg temp_dir overwrite =
     bindR (env_overwriteOutput overwrite) (\<lambda>_.
     bindR (ensure_dir (path_parent out_gpkg)) (\<lambda>_.
     bindR (arcpy_Exists eng out_gpkg) (\<lambda>ex.
     bindR (if \<not> ex then arcpy_run eng (CreateSQLiteDatabase out_gpkg) else ret ()) (\<lambda>_.
     bindR (epsg_of_dataset eng src_fc) (\<lambda>src_epsg.
     case src_epsg of
       None \<Rightarrow> raise (ValueError (''Vector has no readable CRS: '' @ src_fc))
     | Some e \<Rightarrow>
     bindR (if e \<noteq> target_epsg
            then bindR (ensure_scratch_gdb eng temp_dir ''scratch_vectors.gdb'') (\<lambda>scratch_gdb.
                 let tmp_fc = path_join scratch_gdb (out_layer @ ''_tmp_'' @ str_int target_epsg) in
                 bindR (if overwrite
                        then bindR (arcpy_Exists eng tmp_fc) (\<lambda>ex2.
                             if ex2 then arcpy_run eng (Delete tmp_fc) else ret ())
                        else ret ()) (\<lambda>_.
                 bindR (arcpy_run eng (Project src_fc tmp_fc target_epsg)) (\<lambda>_.
                 ret tmp_fc)))
            else ret src_fc) (\<lambda>projected_fc.
     let out_layer_path = gpkg_layer_path out_gpkg out_layer in
     bindR (if overwrite
            then bindR (arcpy_Exists eng out_layer_path) (\<lambda>ex3.
                 if ex3 then arcpy_run eng (Delete out_layer_path) else ret ())
            else ret ()) (\<lambda>_.
     bindR (arcpy_run eng (FeatureClassToFeatureClass projected_fc out_gpkg out_layer)) (\<lambda>_.
     ret out_layer_path))))))))"

subsection \<open>Raster prep\<close>

definition define_projection_if_missing ::
  "engine \<Rightarrow> path \<Rightarrow> int \<Rightarrow> path \<Rightarrow> bool \<Rightarrow> path run" where
  "define_projection_if_missing eng raster_path assumed_epsg temp_dir overwrite =
     bindR (env_overwriteOutput overwrite) (\<lambda>_.
     bindR (ensure_dir temp_dir) (\<lambda>_.
     bindR (epsg_of_dataset eng raster_path) (\<lambda>e.
     if e \<noteq> None then ret raster_path
     else
       let tmp = path_join temp_dir (path_stem raster_path @ ''_defined.tif'') in
       bindR (\<lambda>w. if overwrite \<and> path_exists w tmp
                  then (Inr (), w\<lparr>fs := fs_unlink tmp (fs w)\<rparr>) else (Inr (), w)) (\<lambda>_.
       bindR (arcpy_run eng (CopyRaster raster_path tmp)) (\<lambda>_.
       bindR (arcpy_run eng (DefineProjection tmp assumed_epsg)) (\<lambda>_.
       ret tmp))))))"

text \<open>
  Line 254 of the source calls \<^verbatim>\<open>raster_outpath_in_subfolder(prepared_tif)\<close>: one
  positional argument for the two required parameters \<^verbatim>\<open>prepared_folder\<close> and
  \<^verbatim>\<open>raster_name\<close>.
\<close>

definition prep_raster_to_target ::
  "engine \<Rightarrow> path \<Rightarrow> path \<Rightarrow> int \<Rightarrow> path \<Rightarrow> string \<Rightarrow> int option \<Rightarrow> bool \<Rightarrow> path run" where
  "prep_raster_to_target eng src_raster prepared_tif target_epsg temp_dir resampling
       assume_src_epsg_if_missing overwrite =
     bindR (env_overwriteOutput overwrite) (\<lambda>_.
     bindR (ensure_dir temp_dir) (\<lambda>_.
     bindR (py_call2 ''raster_outpath_in_subfolder() missing 1 required positional argument''
              raster_outpath_in_subfolder (Some prepared_tif) None) (\<lambda>out_raster.
     bindR (case assume_src_epsg_if_missing of
              None \<Rightarrow> ret src_raster
            | Some a \<Rightarrow> define_projection_if_missing eng src_raster a temp_dir overwrite)
       (\<lambda>raster_for_projection.
     bindR (epsg_of_dataset eng raster_for_projection) (\<lambda>src_epsg.
     case src_epsg of
       None \<Rightarrow> raise (ValueError (''Raster has no readable CRS: '' @ src_raster))
     | Some e \<Rightarrow>
     bindR (if e \<noteq> target_epsg
            then arcpy_run eng (ProjectRaster raster_for_projection out_raster target_epsg resampling)
            else arcpy_run eng (CopyRaster raster_for_projection out_raster)) (\<lambda>_.
     ret out_raster))))))"

subsection \<open>Mosaic helper\<close>

definition mosaic_dir_to_raster :: "engine \<Rightarrow> path \<Rightarrow> path \<Rightarrow> bool \<Rightarrow> path run" where
  "mosaic_dir_to_raster eng raster_dir out_mosaic overwrite =
     bindR (env_overwriteOutput overwrite) (\<lambda>_.
     bindR (\<lambda>w. (Inr (sort (glob_tif (fs w) raster_dir)), w)) (\<lambda>tif_paths.
     if tif_paths = [] then raise (FileNotFoundError (''No .tif rasters found in: '' @ raster_dir))
     else
       let out_folder = path_parent out_mosaic; out_name = path_name out_mosaic in
       bindR (ensure_dir out_folder) (\<lambda>_.
       bindR (\<lambda>w. if overwrite \<and> path_exists w out_mosaic
                  then (Inr (), w\<lparr>fs := fs_unlink out_mosaic (fs w)\<rparr>) else (Inr (), w)) (\<lambda>_.
       bindR (arcpy_run eng (MosaicToNewRaster tif_paths out_folder out_name)) (\<lambda>_.
       ret out_mosaic)))))"

subsection \<open>Main preprocessing pipeline\<close>

definition dict_get :: "(string \<times> 'v) list \<Rightarrow> string \<Rightarrow> 'v run" where
  "dict_get d k = (case map_of d k of None \<Rightarrow> raise (KeyError k) | Some v \<Rightarrow> ret v)"

text \<open>
  The list comprehension of line 334,
  \<^verbatim>\<open>[(k, p) for k, p in prepared_outputs.items() if not prepared_exists(k, p)]\<close>.
\<close>

fun missing_items :: "world \<Rightarrow> (string \<times> path) list \<Rightarrow> error + (string \<times> path) list" where
  "missing_items w [] = Inr []"
| "missing_items w ((k, p) # rest) =
     (case prepared_exists w k p of
        Inl e \<Rightarrow> Inl e
      | Inr ex \<Rightarrow>
          (case missing_items w rest of
             Inl e \<Rightarrow> Inl e
           | Inr ms \<Rightarrow> Inr (if ex then ms else (k, p) # ms)))"

fun for_each :: "('a \<Rightarrow> unit run) \<Rightarrow> 'a list \<Rightarrow> unit run" where
  "for_each body [] = ret ()"
| "for_each body (x # xs) = bindR (body x) (\<lambda>_. for_each body xs)"

text \<open>
  The blocks for \<^verbatim>\<open>dem\<close>, \<^verbatim>\<open>watertable\<close> and \<^verbatim>\<open>slope\<close> (lines 350 to 427) are the
  same code with different keys, scratch names, resampling methods and assumed EPSG codes.
\<close>

definition mosaic_raster_job ::
  "engine \<Rightarrow> (string \<times> path) list \<Rightarrow> (string \<times> path) list \<Rightarrow> path \<Rightarrow> int \<Rightarrow> bool \<Rightarrow>
   string \<Rightarrow> string \<Rightarrow> string \<Rightarrow> string \<Rightarrow> int option \<Rightarrow> unit run" where
  "mosaic_raster_job eng source_inputs prepared_outputs tempspace target_epsg overwrite
       key dir_key tmp_name resampling assume =
     bindR (dict_get prepared_outputs key) (\<lambda>prepared_tif.
     bindR (\<lambda>w. (prepared_exists w key prepared_tif, w)) (\<lambda>ex.
     if ex then ret ()
     else
       bindR (dict_get source_inputs dir_key) (\<lambda>raster_dir.
       bindR (mosaic_dir_to_raster eng raster_dir (path_join tempspace tmp_name) overwrite)
         (\<lambda>mosaic.
       bindR (prep_raster_to_target eng mosaic prepared_tif target_epsg tempspace resampling
                assume overwrite) (\<lambda>_.
       ret ())))))"

definition rainfall_job ::
  "engine \<Rightarrow> (string \<times> path) list \<Rightarrow> (string \<times> path) list \<Rightarrow> path \<Rightarrow> int \<Rightarrow> bool \<Rightarrow> unit run" where
  "rainfall_job eng source_inputs prepared_outputs tempspace target_epsg overwrite =
     bindR (dict_get prepared_outputs ''rainfall'') (\<lambda>prepared_tif.
     bindR (\<lambda>w. (prepared_exists w ''rainfall'' prepared_tif, w)) (\<lambda>ex.
     if ex then ret ()
     else
       bindR (dict_get source_inputs ''rainfall'') (\<lambda>src_raster.
       bindR (prep_raster_to_target eng src_raster prepared_tif target_epsg tempspace
                ''BILINEAR'' None overwrite) (\<lambda>_.
       ret ()))))"

definition vector_jobs :: "(string \<times> string) list" where
  "vector_jobs =
     [(''parcels'', ''parcels''), (''cesspools'', ''cesspools''), (''coastline'', ''coastline''),
      (''sma'', ''sma''), (''streams'', ''streams''), (''wells_dom'', ''wells_dom''),
      (''wells_mun'', ''wells_mun''), (''buildings_fps'', ''buildings_fps''),
      (''soils'', ''soils''), (''flood_zones'', ''flood_zones'')]"

text \<open>The body of the loop over \<^verbatim>\<open>vector_jobs\<close> (lines 464 to 480).\<close>

definition vector_job ::
  "engine \<Rightarrow> (string \<times> path) list \<Rightarrow> (string \<times> path) list \<Rightarrow> path \<Rightarrow> int \<Rightarrow> bool \<Rightarrow>
   string \<times> string \<Rightarrow> unit run" where
  "vector_job eng source_inputs prepared_outputs tempspace target_epsg overwrite job =
     (case job of (key, layer_name) \<Rightarrow>
     bindR (dict_get prepared_outputs key) (\<lambda>out_gpkg.
     bindR (\<lambda>w. (Inr (path_exists w out_gpkg), w)) (\<lambda>ex.
     if ex then ret ()
     else
       bindR (dict_get source_inputs key) (\<lambda>src_fc.
       bindR (prep_vector_to_gpkg eng src_fc out_gpkg layer_name target_epsg tempspace overwrite)
         (\<lambda>_.
       ret ())))))"

definition prepare_source_inputs ::
  "engine \<Rightarrow> (string \<times> path) list \<Rightarrow> (string \<times> path) list \<Rightarrow> path \<Rightarrow> int \<Rightarrow> bool \<Rightarrow>
   (string \<times> path) list run" where
  "prepare_source_inputs eng source_inputs prepared_outputs tempspace target_epsg overwrite =
     bindR (ensure_dir tempspace) (\<lambda>_.
     bindR (\<lambda>w. (missing_items w prepared_outputs, w)) (\<lambda>missing.
     if missing = [] then ret prepared_outputs
     else
       bindR (mosaic_raster_job eng source_inputs prepared_outputs tempspace target_epsg overwrite
                ''dem'' ''dem_dir'' ''dem_mosaic_tmp.tif'' ''BILINEAR'' (Some 4326)) (\<lambda>_.
       bindR (mosaic_raster_job eng source_inputs prepared_outputs tempspace target_epsg overwrite
                ''watertable'' ''watertable_dir'' ''watertable_mosaic_tmp.tif'' ''NEAREST'' None)
         (\<lambda>_.
       bindR (mosaic_raster_job eng source_inputs prepared_outputs tempspace target_epsg overwrite
                ''slope'' ''slope_dir'' ''slope_mosaic_tmp.tif'' ''BILINEAR'' (Some 4326)) (\<lambda>_.
       bindR (rainfall_job eng source_inputs prepared_outputs tempspace target_epsg overwrite)
         (\<lambda>_.
       bindR (for_each (vector_job eng source_inputs prepared_outputs tempspace target_epsg
                overwrite) vector_jobs) (\<lambda>_.
       ret prepared_outputs)))))))"

section \<open>src/download_input_layers.py\<close>

subsection \<open>The remote side\<close>

text \<open>
  A reply to a GET is either no reply at all (\<^verbatim>\<open>requests.get\<close> raises), or a status
  code with the chunks of the body that arrive and a flag telling whether the body arrives
  whole; a body cut short raises while it is read. The reply may depend on how many
  requests came before. Unpacking an archive and decoding a directory listing are
  parameters as well, and so is the \<^verbatim>\<open>gdal_translate\<close> process: it reads the NetCDF
  file and either fails or yields the bytes it writes to the GeoTIFF path.
\<close>

datatype reply = NoReply | Reply nat "bytes list" bool

record item =
  item_type :: string
  item_name :: string
  item_download_url :: string
  item_url :: string

record remote =
  net :: "nat \<Rightarrow> string \<Rightarrow> string option \<Rightarrow> reply"
  unzip :: "bytes \<Rightarrow> error + (string \<times> bytes) list"
  json_items :: "bytes \<Rightarrow> error + item list"
  gdal_on_path :: bool
  gdal_translate :: "path \<Rightarrow> filesystem \<Rightarrow> error + bytes"

fun is_request :: "io_event \<Rightarrow> bool" where
  "is_request (Request u h) = True"
| "is_request _ = False"

definition send :: "remote \<Rightarrow> string \<Rightarrow> string option \<Rightarrow> world \<Rightarrow> reply \<times> world" where
  "send rem url headers w =
     (net rem (length (filter is_request (trace w))) url headers,
      w\<lparr>trace := trace w @ [Request url headers]\<rparr>)"

definition raise_for_status :: "nat \<Rightarrow> unit run" where
  "raise_for_status st = (if 400 \<le> st \<and> st < 600 then raise (HTTPError st) else ret ())"

text \<open>\<^verbatim>\<open>requests.get(url)\<close> without streaming: the whole body is read before the call returns.\<close>

definition requests_get :: "remote \<Rightarrow> string \<Rightarrow> (nat \<times> bytes) run" where
  "requests_get rem url w =
     (case send rem url None w of
        (NoReply, w1) \<Rightarrow> (Inl TransportError, w1)
      | (Reply st chunks whole, w1) \<Rightarrow>
          if whole then (Inr (st, concat chunks), w1) else (Inl TransportError, w1))"

definition mkdir :: "path \<Rightarrow> unit run" where
  "mkdir p w = (Inr (), w\<lparr>fs := fs_mkdir p (fs w)\<rparr>)"

definition write_bytes :: "path \<Rightarrow> bytes \<Rightarrow> unit run" where
  "write_bytes p b w = (Inr (), w\<lparr>fs := fs_write p b (fs w), trace := trace w @ [Write p]\<rparr>)"

definition unlink :: "path \<Rightarrow> unit run" where
  "unlink p w =
     (if path_exists w p then (Inr (), w\<lparr>fs := fs_unlink p (fs w)\<rparr>)
      else (Inl (FileNotFoundError p), w))"

definition unlink_if_exists :: "path \<Rightarrow> unit run" where
  "unlink_if_exists p w = (if path_exists w p then unlink p w else (Inr (), w))"

subsection \<open>ZIP datasets\<close>

definition download_and_unzip :: "remote \<Rightarrow> string \<Rightarrow> string \<Rightarrow> path \<Rightarrow> unit run" where
  "download_and_unzip rem dataset_id url raw_dir =
     (let out_folder = path_join raw_dir dataset_id in
      bindR (mkdir out_folder) (\<lambda>_.
      let zip_path = path_join out_folder (dataset_id @ ''.zip'') in
      bindR (requests_get rem url) (\<lambda>resp.
      bindR (raise_for_status (fst resp)) (\<lambda>_.
      bindR (write_bytes zip_path (snd resp)) (\<lambda>_.
      bindR (\<lambda>w. (unzip rem (snd resp), w)) (\<lambda>entries.
      bindR (for_each (\<lambda>e. write_bytes (path_join out_folder (fst e)) (snd e)) entries) (\<lambda>_.
      unlink zip_path)))))))"

subsection \<open>GitHub folders\<close>

text \<open>
  \<^verbatim>\<open>_download_folder\<close> calls itself for every directory entry of the listing it has
  fetched, so its depth is that of the remote tree. The first argument bounds the depth as
  the interpreter's recursion limit does.
\<close>

fun download_folder :: "remote \<Rightarrow> bool \<Rightarrow> nat \<Rightarrow> string \<Rightarrow> path \<Rightarrow> unit run"
  and download_items :: "remote \<Rightarrow> bool \<Rightarrow> nat \<Rightarrow> item list \<Rightarrow> path \<Rightarrow> unit run" where
  "download_folder rem overwrite 0 url dest = raise RecursionError"
| "download_folder rem overwrite (Suc limit) url dest =
     bindR (requests_get rem url) (\<lambda>resp.
     bindR (raise_for_status (fst resp)) (\<lambda>_.
     bindR (\<lambda>w. (json_items rem (snd resp), w)) (\<lambda>items.
     download_items rem overwrite limit items dest)))"
| "download_items rem overwrite limit [] dest = ret ()"
| "download_items rem overwrite limit (it # its) dest =
     bindR
       (if item_type it = ''file'' then
          (let dst = path_join dest (item_name it) in
           bindR (\<lambda>w. (Inr (path_exists w dst), w)) (\<lambda>ex.
           if ex \<and> \<not> overwrite then ret ()
           else
             bindR (\<lambda>w. case send rem (item_download_url it) None w of
                          (NoReply, w1) \<Rightarrow> (Inl TransportError, w1)
                        | (Reply st chunks whole, w1) \<Rightarrow>
                            if whole then (Inr (concat chunks), w1) else (Inl TransportError, w1))
               (\<lambda>file_bytes.
             write_bytes dst file_bytes)))
        else if item_type it = ''dir'' then
          (let subfolder = path_join dest (item_name it) in
           bindR (mkdir subfolder) (\<lambda>_.
           download_folder rem overwrite limit (item_url it) subfolder))
        else ret ())
       (\<lambda>_. download_items rem overwrite limit its dest)"

definition download_github_folder ::
  "remote \<Rightarrow> nat \<Rightarrow> string \<Rightarrow> string \<Rightarrow> path \<Rightarrow> bool \<Rightarrow> unit run" where
  "download_github_folder rem limit dataset_id api_url raw_dir overwrite =
     (let out_folder = path_join raw_dir dataset_id in
      bindR (mkdir out_folder) (\<lambda>_.
      download_folder rem overwrite limit api_url out_folder))"

subsection \<open>Streaming download\<close>

definition pacioos_build_ncss_url :: "string \<Rightarrow> string \<Rightarrow> string" where
  "pacioos_build_ncss_url ncss_base dataset_id =
     ncss_base @ ''/'' @ dataset_id @ ''?var=elev&horizStride=1&accept=netcdf''"

text \<open>\<^verbatim>\<open>stat().st_size\<close>: the length of a file; a directory counts as empty here.\<close>

definition file_size :: "world \<Rightarrow> path \<Rightarrow> nat" where
  "file_size w p = (case map_of (fs w) p of Some (File b) \<Rightarrow> length b | _ \<Rightarrow> 0)"

definition open_file :: "path \<Rightarrow> bool \<Rightarrow> world \<Rightarrow> world" where
  "open_file p appending w =
     w\<lparr>fs := (if appending \<and> fs_exists (fs w) p then fs w else fs_write p [] (fs w)),
       trace := trace w @ [Open p appending]\<rparr>"

definition write_chunk :: "path \<Rightarrow> bytes \<Rightarrow> world \<Rightarrow> world" where
  "write_chunk p c w =
     w\<lparr>fs := (case map_of (fs w) p of
                Some (File b) \<Rightarrow> fs_write p (b @ c) (fs w)
              | _ \<Rightarrow> fs_write p c (fs w)),
       trace := trace w @ [Append p c]\<rparr>"

definition replace :: "path \<Rightarrow> path \<Rightarrow> world \<Rightarrow> world" where
  "replace src dst w =
     w\<lparr>fs := (case map_of (fs w) src of
                Some n \<Rightarrow> AList.update dst n (AList.delete src (fs w))
              | None \<Rightarrow> fs w),
       trace := trace w @ [Replace src dst]\<rparr>"

definition sleep :: "int \<Rightarrow> world \<Rightarrow> world" where
  "sleep n w = w\<lparr>trace := trace w @ [Sleep n]\<rparr>"

text \<open>The body of the \<^verbatim>\<open>try\<close> block (lines 122 to 133); \<open>Inl\<close> is the exception caught at line 135.\<close>

definition fetch_attempt ::
  "remote \<Rightarrow> string \<Rightarrow> path \<Rightarrow> path \<Rightarrow> string option \<Rightarrow> nat \<Rightarrow> unit run" where
  "fetch_attempt rem url tmp_path out_path headers resume_pos w =
     (case send rem url headers w of
        (NoReply, w1) \<Rightarrow> (Inl TransportError, w1)
      | (Reply st chunks whole, w1) \<Rightarrow>
          if 400 \<le> st \<and> st < 600 then (Inl (HTTPError st), w1)
          else
            let w2 = open_file tmp_path (headers \<noteq> None \<and> resume_pos > 0) w1;
                w3 = fold (write_chunk tmp_path) (filter (\<lambda>c. c \<noteq> []) chunks) w2
            in if whole then (Inr (), replace tmp_path out_path w3)
               else (Inl TransportError, w3))"

text \<open>
  The loop \<^verbatim>\<open>for attempt in range(1, retries + 1)\<close>. It yields \<open>True\<close> when an
  attempt returned from the function and \<open>False\<close> when the range ran out.
\<close>

fun attempt_loop ::
  "remote \<Rightarrow> string \<Rightarrow> path \<Rightarrow> path \<Rightarrow> string option \<Rightarrow> nat \<Rightarrow> int list \<Rightarrow> world \<Rightarrow> bool \<times> world"
  where
  "attempt_loop rem url tmp_path out_path headers resume_pos [] w = (False, w)"
| "attempt_loop rem url tmp_path out_path headers resume_pos (attempt # rest) w =
     (case fetch_attempt rem url tmp_path out_path headers resume_pos w of
        (Inr u, w') \<Rightarrow> (True, w')
      | (Inl e, w') \<Rightarrow>
          attempt_loop rem url tmp_path out_path headers resume_pos rest
            (sleep (min 60 (2 ^ nat attempt)) w'))"

definition download_streaming ::
  "remote \<Rightarrow> string \<Rightarrow> path \<Rightarrow> bool \<Rightarrow> int \<Rightarrow> unit run" where
  "download_streaming rem url out_path overwrite retries w =
     (if path_exists w out_path \<and> \<not> overwrite then (Inr (), w)
      else
        let w1 = w\<lparr>fs := fs_mkdir (path_parent out_path) (fs w)\<rparr> in
        case with_suffix out_path (path_suffix out_path @ ''.part'') of
          Inl e \<Rightarrow> (Inl e, w1)
        | Inr tmp_path \<Rightarrow>
            let resume_pos = (if path_exists w1 tmp_path then file_size w1 tmp_path else 0);
                headers = (if resume_pos > 0 \<and> \<not> overwrite
                           then Some (''bytes='' @ str_nat resume_pos @ ''-'') else None)
            in case attempt_loop rem url tmp_path out_path headers resume_pos [1..retries] w1 of
                 (True, w2) \<Rightarrow> (Inr (), w2)
               | (False, w2) \<Rightarrow>
                   (Inl (RuntimeError (''Failed after '' @ str_int retries @ '' attempts: ''
                      @ path_name out_path)), w2))"

subsection \<open>NetCDF to GeoTIFF\<close>

definition nc_to_geotiff_and_delete :: "remote \<Rightarrow> path \<Rightarrow> path \<Rightarrow> bool \<Rightarrow> unit run" where
  "nc_to_geotiff_and_delete rem nc_path tif_path overwrite_tif =
     bindR (\<lambda>w. (Inr (path_exists w tif_path), w)) (\<lambda>ex.
     if ex \<and> \<not> overwrite_tif then
       bindR (unlink_if_exists nc_path) (\<lambda>_.
       bindR (\<lambda>w. (with_suffix nc_path (path_suffix nc_path @ ''.part''), w)) (\<lambda>part.
       unlink_if_exists part))
     else if \<not> gdal_on_path rem then raise (RuntimeError ''gdal_translate not found on PATH.'')
     else
       bindR (\<lambda>w. (Inr (path_exists w nc_path), w)) (\<lambda>nc_ex.
       if \<not> nc_ex then raise (RuntimeError (''Expected NetCDF does not exist: '' @ nc_path))
       else
         bindR (\<lambda>w. case gdal_translate rem nc_path (fs w) of
                      Inl e \<Rightarrow> (Inl e, w)
                    | Inr tif \<Rightarrow> (Inr (), w\<lparr>fs := fs_write tif_path tif (fs w)\<rparr>)) (\<lambda>_.
         unlink nc_path)))"

subsection \<open>PacIOOS DEMs\<close>

text \<open>The body of the loop over \<^verbatim>\<open>dataset_ids\<close> (lines 210 to 227).\<close>

definition dem_job :: "remote \<Rightarrow> path \<Rightarrow> string \<Rightarrow> bool \<Rightarrow> bool \<Rightarrow> string \<Rightarrow> unit run" where
  "dem_job rem out_dir ncss_base overwrite_tif overwrite_nc ds =
     (let url = pacioos_build_ncss_url ncss_base ds;
          nc_path = path_join out_dir (ds @ ''.nc'');
          tif_path = path_join out_dir (ds @ ''.tif'')
      in
      bindR (\<lambda>w. (Inr (path_exists w tif_path), w)) (\<lambda>ex.
      if ex \<and> \<not> overwrite_tif then
        bindR (\<lambda>w. (with_suffix nc_path (path_suffix nc_path @ ''.part''), w)) (\<lambda>part.
        bindR (unlink_if_exists part) (\<lambda>_.
        unlink_if_exists nc_path))
      else
        bindR (download_streaming rem url nc_path overwrite_nc 8) (\<lambda>_.
        nc_to_geotiff_and_delete rem nc_path tif_path overwrite_tif)))"

definition download_pacioos_dems ::
  "remote \<Rightarrow> path \<Rightarrow> string \<Rightarrow> string \<Rightarrow> string list \<Rightarrow> bool \<Rightarrow> bool \<Rightarrow> unit run" where
  "download_pacioos_dems rem raw_dir dem_dir ncss_base dataset_ids overwrite_tif overwrite_nc =
     (let out_dir = path_join raw_dir dem_dir in
      bindR (mkdir out_dir) (\<lambda>_.
      for_each (dem_job rem out_dir ncss_base overwrite_tif overwrite_nc) dataset_ids))"

subsection \<open>Entry point\<close>

definition main ::
  "remote \<Rightarrow> nat \<Rightarrow> path \<Rightarrow> (string \<times> string) list \<Rightarrow> (string \<times> string) list \<Rightarrow> string \<Rightarrow>
   string \<Rightarrow> string list \<Rightarrow> bool \<Rightarrow> bool \<Rightarrow> bool \<Rightarrow> unit run" where
  "main rem limit raw_dir zip_sources github_datasets pacioos_dem_dir pacioos_ncss_base
       pacioos_dem_dataset_ids overwrite overwrite_dem_tif overwrite_dem_nc =
     bindR (for_each (\<lambda>z. download_and_unzip rem (fst z) (snd z) raw_dir) zip_sources) (\<lambda>_.
     bindR (for_each (\<lambda>g. download_github_folder rem limit (fst g) (snd g) raw_dir overwrite)
              github_datasets) (\<lambda>_.
     download_pacioos_dems rem raw_dir pacioos_dem_dir pacioos_ncss_base pacioos_dem_dataset_ids
       overwrite_dem_tif overwrite_dem_nc))"

section \<open>Reading the logs\<close>

text \<open>A reply on which a fetch attempt fails: none, an error status, or a body cut short.\<close>

fun failing :: "reply \<Rightarrow> bool" where
  "failing NoReply = True"
| "failing (Reply st chunks whole) = (if 400 \<le> st \<and> st < 600 then True else \<not> whole)"

fun is_net_event :: "io_event \<Rightarrow> bool" where
  "is_net_event (Request u h) = True"
| "is_net_event (Sleep n) = True"
| "is_net_event _ = False"

text \<open>The file operations of the trace that open, write or rename a given path.\<close>

fun touches :: "path \<Rightarrow> io_event \<Rightarrow> bool" where
  "touches p (Open q a) = (q = p)"
| "touches p (Append q c) = (q = p)"
| "touches p (Replace s d) = (s = p \<or> d = p)"
| "touches p (Write q) = (q = p)"
| "touches p _ = False"



text \<open>
  A step keeps a set of paths when, started where they all exist, it ends where they all
  exist, and it only appends events of a given kind to the trace.
\<close>

definition keeps :: "path set \<Rightarrow> (io_event \<Rightarrow> bool) \<Rightarrow> 'a run \<Rightarrow> bool" where
  "keeps Q ok m =
     (\<forall>w. (\<forall>q \<in> Q. fs_exists (fs w) q) \<longrightarrow>
          (\<forall>q \<in> Q. fs_exists (fs (snd (m w))) q) \<and>
          (\<exists>evs. trace (snd (m w)) = trace w @ evs \<and> (\<forall>e \<in> set evs. ok e)))"

definition log_grows :: "'a run \<Rightarrow> bool" where
  "log_grows m = (\<forall>w. length (elog w) \<le> length (elog (snd (m w))))"

section \<open>Sample environments\<close>

text \<open>
  A small engine for concrete runs: a dataset exists when its path is in the file system,
  every dataset carries EPSG 32604, creating a GeoPackage writes an empty file and the
  other tools leave the file system alone.
\<close>

definition sample_engine :: engine where
  "sample_engine =
     \<lparr>eng_exists = (\<lambda>f p. fs_exists f p),
      eng_describe = (\<lambda>f p. Inr (SpatialRef (Some 32604))),
      eng_run = (\<lambda>t f. case t of CreateSQLiteDatabase p \<Rightarrow> Inr (fs_write p [] f) | _ \<Rightarrow> Inr f)\<rparr>"

definition empty_tile_world :: world where
  "empty_tile_world =
     \<lparr>fs = [(''raw/dem'', Dir), (''raw/dem/readme.txt'', File ''no tiles''),
             (''tmp/dem_mosaic_tmp.tif'', File ''old mosaic'')],
      elog = [], trace = []\<rparr>"

text \<open>
  A prepared catalog whose ten vector layers share one GeoPackage, as the specification
  describes it, and a file system in which the four rasters are complete.
\<close>

definition prepared_catalog :: "(string \<times> path) list" where
  "prepared_catalog =
     [(''dem'', ''prepared/dem_32604.tif''), (''watertable'', ''prepared/wt_32604.tif''),
      (''slope'', ''prepared/slope_32604.tif''), (''rainfall'', ''prepared/rain_32604.tif''),
      (''parcels'', ''prepared/vectors.gpkg''), (''cesspools'', ''prepared/vectors.gpkg''),
      (''coastline'', ''prepared/vectors.gpkg''), (''sma'', ''prepared/vectors.gpkg''),
      (''streams'', ''prepared/vectors.gpkg''), (''wells_dom'', ''prepared/vectors.gpkg''),
      (''wells_mun'', ''prepared/vectors.gpkg''), (''buildings_fps'', ''prepared/vectors.gpkg''),
      (''soils'', ''prepared/vectors.gpkg''), (''flood_zones'', ''prepared/vectors.gpkg'')]"

definition source_catalog :: "(string \<times> path) list" where
  "source_catalog =
     [(''dem_dir'', ''raw/dem''), (''watertable_dir'', ''raw/wt''), (''slope_dir'', ''raw/slope''),
      (''rainfall'', ''raw/rain.tif''), (''parcels'', ''raw/parcels.shp''),
      (''cesspools'', ''raw/cesspools.shp'')]"

definition rasters_done_world :: world where
  "rasters_done_world =
     \<lparr>fs = [(''prepared/dem_32604/dem_32604.tif'', File ''d''),
             (''prepared/wt_32604/wt_32604.tif'', File ''w''),
             (''prepared/slope_32604/slope_32604.tif'', File ''s''),
             (''prepared/rain_32604/rain_32604.tif'', File ''r'')],
      elog = [], trace = []\<rparr>"

definition after_first_run :: world where
  "after_first_run =
     \<lparr>fs = [(''prepared/dem_32604/dem_32604.tif'', File ''d''),
             (''prepared/wt_32604/wt_32604.tif'', File ''w''),
             (''prepared/slope_32604/slope_32604.tif'', File ''s''),
             (''prepared/rain_32604/rain_32604.tif'', File ''r''),
             (''tmp'', Dir), (''prepared'', Dir), (''prepared/vectors.gpkg'', File [])],
      elog = [EnvOverwriteOutput False, Exists ''prepared/vectors.gpkg'',
              Run (CreateSQLiteDatabase ''prepared/vectors.gpkg''),
              Describe ''raw/parcels.shp'',
              Run (FeatureClassToFeatureClass ''raw/parcels.shp'' ''prepared/vectors.gpkg''
                     ''parcels'')],
      trace = []\<rparr>"

text \<open>
  Remote sides for concrete runs. The first never delivers: it alternates between no
  reply, status 503 and a body that breaks off after three bytes. The second serves the
  six bytes \<^verbatim>\<open>abcdef\<close>, honours the header \<^verbatim>\<open>Range: bytes=2-\<close>, and breaks off the
  very first transfer after two bytes.
\<close>

definition flaky_net :: "nat \<Rightarrow> string \<Rightarrow> string option \<Rightarrow> reply" where
  "flaky_net n url h =
     (if n mod 3 = 0 then NoReply
      else if n mod 3 = 1 then Reply 503 [''busy''] True
      else Reply 200 [''ab'', [], ''c''] False)"

definition failing_remote :: remote where
  "failing_remote =
     \<lparr>net = flaky_net, unzip = (\<lambda>b. Inl BadZipFile), json_items = (\<lambda>b. Inl JSONDecodeError),
      gdal_on_path = True, gdal_translate = (\<lambda>nc f. Inr ''tif'')\<rparr>"

definition range_net :: "nat \<Rightarrow> string \<Rightarrow> string option \<Rightarrow> reply" where
  "range_net n url h =
     (if h = Some ''bytes=2-''
      then (if n = 0 then Reply 206 [''cd''] False else Reply 206 [''cdef''] True)
      else Reply 200 [''abcdef''] True)"

definition range_remote :: remote where
  "range_remote =
     \<lparr>net = range_net,
      unzip = (\<lambda>b. Inr [(''coast.shp'', ''shape'')]),
      json_items = (\<lambda>b. Inr [\<lparr>item_type = ''file'', item_name = ''a.tif'',
                                item_download_url = ''http://f/a.tif'',
                                item_url = ''http://api/a.tif''\<rparr>]),
      gdal_on_path = True, gdal_translate = (\<lambda>nc f. Inr ''tif'')\<rparr>"

definition blank_world :: world where
  "blank_world = \<lparr>fs = [], elog = [], trace = []\<rparr>"

definition part_world :: world where
  "part_world = \<lparr>fs = [(''raw/dem/maui.nc.part'', File ''ab'')], elog = [], trace = []\<rparr>"

text \<open>A raw-data tree in which every artifact of a small acquisition catalog is on disk.\<close>

definition raw_done_world :: world where
  "raw_done_world =
     \<lparr>fs = [(''raw/coast'', Dir), (''raw/coast/coast.zip'', File ''abcdef''),
             (''raw/coast/coast.shp'', File ''shape''),
             (''raw/slope'', Dir), (''raw/slope/a.tif'', File ''abcdef''),
             (''raw/dem'', Dir), (''raw/dem/maui.tif'', File ''tif'')],
      elog = [], trace = []\<rparr>"

section \<open>Properties of the preparation module\<close>

lemma bindR_ret [simp]: "bindR (ret x) f = f x"
  by (rule ext) (simp add: bindR_def ret_def)

lemma bindR_raise [simp]: "bindR (raise e) f = raise e"
  by (rule ext) (simp add: bindR_def raise_def)

lemmas run_defs =
  bindR_def ret_def raise_def env_overwriteOutput_def ensure_dir_def arcpy_run_def
  arcpy_Exists_def epsg_of_dataset_def path_exists_def dict_get_def

text \<open>
  C7. Whenever the tile directory holds no \<^verbatim>\<open>.tif\<close> entry, \<^verbatim>\<open>mosaic_dir_to_raster\<close>
  raises \<^verbatim>\<open>FileNotFoundError\<close>; the file system is left exactly as it was, so no
  output file is produced, and the only contact with the engine is the assignment of
  \<^verbatim>\<open>env.overwriteOutput\<close>: no tool runs.
\<close>

theorem mosaic_zero_tiles_raises:
  assumes "glob_tif (fs w) raster_dir = []"
  shows "mosaic_dir_to_raster eng raster_dir out_mosaic overwrite w =
           (Inl (FileNotFoundError (''No .tif rasters found in: '' @ raster_dir)),
            w\<lparr>elog := elog w @ [EnvOverwriteOutput overwrite]\<rparr>)"
  using assms by (simp add: mosaic_dir_to_raster_def run_defs)

theorem mosaic_zero_tiles_raises_witness:
  "glob_tif (fs empty_tile_world) ''raw/dem'' = [] \<and>
   mosaic_dir_to_raster sample_engine ''raw/dem'' ''tmp/out.tif'' False empty_tile_world =
     (Inl (FileNotFoundError ''No .tif rasters found in: raw/dem''),
      empty_tile_world\<lparr>elog := [EnvOverwriteOutput False]\<rparr>)"
proof -
  have g: "glob_tif (fs empty_tile_world) ''raw/dem'' = []"
    by (simp add: glob_tif_def empty_tile_world_def is_child_def has_suffix_def)
  show ?thesis
    using g mosaic_zero_tiles_raises [OF g, of sample_engine "''tmp/out.tif''" False]
    by (simp add: empty_tile_world_def)
qed

text \<open>
  C10. With \<^verbatim>\<open>overwrite=True\<close> and a file already at the output path, an empty tile
  directory makes the call raise before the deletion of line 303 is reached: the entry at
  the output path is the one that was there before the call, and so is every other entry.
\<close>

theorem mosaic_zero_tiles_keeps_output:
  assumes "glob_tif (fs w) raster_dir = []"
    and "map_of (fs w) out_mosaic = Some old"
  shows "fst (mosaic_dir_to_raster eng raster_dir out_mosaic True w) =
           Inl (FileNotFoundError (''No .tif rasters found in: '' @ raster_dir)) \<and>
         map_of (fs (snd (mosaic_dir_to_raster eng raster_dir out_mosaic True w))) out_mosaic =
           Some old \<and>
         fs (snd (mosaic_dir_to_raster eng raster_dir out_mosaic True w)) = fs w"
  using assms by (simp add: mosaic_dir_to_raster_def run_defs)

theorem mosaic_zero_tiles_keeps_output_witness:
  "glob_tif (fs empty_tile_world) ''raw/dem'' = [] \<and>
   map_of (fs empty_tile_world) ''tmp/dem_mosaic_tmp.tif'' = Some (File ''old mosaic'') \<and>
   fst (mosaic_dir_to_raster sample_engine ''raw/dem'' ''tmp/dem_mosaic_tmp.tif'' True
          empty_tile_world) = Inl (FileNotFoundError ''No .tif rasters found in: raw/dem'') \<and>
   map_of (fs (snd (mosaic_dir_to_raster sample_engine ''raw/dem'' ''tmp/dem_mosaic_tmp.tif'' True
          empty_tile_world))) ''tmp/dem_mosaic_tmp.tif'' = Some (File ''old mosaic'')"
proof -
  have g: "glob_tif (fs empty_tile_world) ''raw/dem'' = []"
    by (simp add: glob_tif_def empty_tile_world_def is_child_def has_suffix_def)
  have m: "map_of (fs empty_tile_world) ''tmp/dem_mosaic_tmp.tif'' = Some (File ''old mosaic'')"
    by (simp add: empty_tile_world_def)
  show ?thesis
    using g m mosaic_zero_tiles_keeps_output [OF g m, of sample_engine]
    by simp
qed

text \<open>
  When tiles are present the same call does delete the old output before the engine
  runs, so the order of the two steps is what protects the file above.
\<close>

lemma mosaic_with_tiles_deletes_output:
  assumes "glob_tif (fs w) raster_dir \<noteq> []"
    and "fs_exists (fs_mkdir (path_parent out_mosaic) (fs w)) out_mosaic"
    and "eng_run eng (MosaicToNewRaster (sort (glob_tif (fs w) raster_dir))
           (path_parent out_mosaic) (path_name out_mosaic))
           (fs_unlink out_mosaic (fs_mkdir (path_parent out_mosaic) (fs w))) = Inr f'"
  shows "mosaic_dir_to_raster eng raster_dir out_mosaic True w =
           (Inr out_mosaic,
            w\<lparr>fs := f', elog := elog w @ [EnvOverwriteOutput True,
              Run (MosaicToNewRaster (sort (glob_tif (fs w) raster_dir))
                (path_parent out_mosaic) (path_name out_mosaic))]\<rparr>)"
proof -
  have "sort (glob_tif (fs w) raster_dir) \<noteq> []"
    using assms(1) by (metis length_sort length_0_conv)
  then show ?thesis
    using assms(2,3)
    by (simp add: mosaic_dir_to_raster_def run_defs Let_def)
qed

text \<open>
  C3. \<^verbatim>\<open>prep_raster_to_target\<close> never computes an output path. After setting
  \<^verbatim>\<open>env.overwriteOutput\<close> and creating the scratch directory it calls
  \<^verbatim>\<open>raster_outpath_in_subfolder\<close> with one argument for two required parameters, and
  the call raises \<^verbatim>\<open>TypeError\<close>, whatever the source raster, its CRS or the engine.
\<close>

theorem prep_raster_to_target_type_error:
  "prep_raster_to_target eng src_raster prepared_tif target_epsg temp_dir resampling assume
       overwrite w =
     (Inl (TypeError ''raster_outpath_in_subfolder() missing 1 required positional argument''),
      w\<lparr>fs := fs_mkdir temp_dir (fs w), elog := elog w @ [EnvOverwriteOutput overwrite]\<rparr>)"
  by (simp add: prep_raster_to_target_def run_defs)

text \<open>
  C8. A raster whose EPSG code already equals the target is not copied: the call stops at
  the \<^verbatim>\<open>TypeError\<close> of line 254 and the engine log shows neither \<^verbatim>\<open>CopyRaster\<close> nor
  \<^verbatim>\<open>ProjectRaster\<close>.
\<close>

theorem prep_raster_equal_epsg_no_copy:
  "eng_describe sample_engine (fs empty_tile_world) ''raw/rain.tif'' = Inr (SpatialRef (Some 32604)) \<and>
   elog (snd (prep_raster_to_target sample_engine ''raw/rain.tif'' ''prepared/rain_32604.tif''
          32604 ''tmp'' ''BILINEAR'' None False empty_tile_world)) = [EnvOverwriteOutput False] \<and>
   (\<exists>m. fst (prep_raster_to_target sample_engine ''raw/rain.tif'' ''prepared/rain_32604.tif''
          32604 ''tmp'' ''BILINEAR'' None False empty_tile_world) = Inl (TypeError m))"
  by (simp add: prep_raster_to_target_def run_defs sample_engine_def empty_tile_world_def)

text \<open>
  For vectors the equal-EPSG rule is in force: with the GeoPackage in place and the source
  already in the target CRS, the source goes straight to
  \<^verbatim>\<open>FeatureClassToFeatureClass\<close> and \<^verbatim>\<open>Project\<close> is not called.
\<close>

lemma prep_vector_equal_epsg_plain_copy:
  assumes "eng_exists eng (fs_mkdir (path_parent out_gpkg) (fs w)) out_gpkg"
    and "eng_describe eng (fs_mkdir (path_parent out_gpkg) (fs w)) src_fc =
           Inr (SpatialRef (Some target_epsg))"
    and "target_epsg \<noteq> 0"
  shows "elog (snd (prep_vector_to_gpkg eng src_fc out_gpkg out_layer target_epsg temp_dir False w)) =
           elog w @ [EnvOverwriteOutput False, Exists out_gpkg, Describe src_fc,
                     Run (FeatureClassToFeatureClass src_fc out_gpkg out_layer)]"
  using assms
  by (simp add: prep_vector_to_gpkg_def run_defs gpkg_layer_path_def Let_def split: sum.splits)

subsection \<open>Re-running the orchestrator\<close>

lemma bindR_Inr_elim:
  "bindR m f w = (Inr x, w') \<Longrightarrow> \<exists>y w''. m w = (Inr y, w'') \<and> f y w'' = (Inr x, w')"
  by (auto simp: bindR_def split: prod.splits sum.splits)

lemma prepare_returns_manifest:
  assumes "prepare_source_inputs eng src prep tmp epsg ow w = (Inr m, w')"
  shows "m = prep"
  using assms
  by (auto simp: prepare_source_inputs_def ret_def dest!: bindR_Inr_elim split: if_splits)

lemma fs_exists_mkdir: "fs_exists f q \<Longrightarrow> fs_exists (fs_mkdir p f) q"
  by (auto simp: fs_mkdir_def fs_exists_def)

lemma prepared_exists_mkdir:
  "prepared_exists w k p = Inr True \<Longrightarrow>
   prepared_exists (w\<lparr>fs := fs_mkdir t (fs w)\<rparr>) k p = Inr True"
  by (auto simp: prepared_exists_def path_exists_def fs_exists_mkdir split: if_splits sum.splits)

lemma missing_items_none:
  "\<forall>(k, p) \<in> set prep. prepared_exists w k p = Inr True \<Longrightarrow> missing_items w prep = Inr []"
  by (induction prep) auto

text \<open>
  C1. Let a first run of \<^verbatim>\<open>prepare_source_inputs\<close> return a manifest and leave a
  world in which every entry of the prepared catalog exists (rasters at their subfolder
  path, the others at the path given). A second run with the same arguments then returns
  the same manifest, and its engine log is the log the first run left: not a single engine
  call, not even the assignment of \<^verbatim>\<open>env.overwriteOutput\<close>. The only effect of the
  second run is that the scratch directory is ensured again.
\<close>

theorem prepare_second_run_noop:
  assumes "prepare_source_inputs eng src prep tmp epsg ow w0 = (Inr m1, w1)"
    and "\<forall>(k, p) \<in> set prep. prepared_exists w1 k p = Inr True"
  shows "prepare_source_inputs eng src prep tmp epsg ow w1 =
           (Inr m1, w1\<lparr>fs := fs_mkdir tmp (fs w1)\<rparr>) \<and>
         elog (snd (prepare_source_inputs eng src prep tmp epsg ow w1)) = elog w1"
proof -
  have m: "m1 = prep" using assms(1) by (rule prepare_returns_manifest)
  have "\<forall>(k, p) \<in> set prep. prepared_exists (w1\<lparr>fs := fs_mkdir tmp (fs w1)\<rparr>) k p = Inr True"
    using assms(2) by (auto simp: prepared_exists_mkdir)
  then have "missing_items (w1\<lparr>fs := fs_mkdir tmp (fs w1)\<rparr>) prep = Inr []"
    by (rule missing_items_none)
  then show ?thesis
    by (simp add: prepare_source_inputs_def bindR_def ensure_dir_def ret_def m)
qed

text \<open>
  The witness is a first run that does real work: the rasters are complete, the shared
  GeoPackage is not there yet, and the engine creates it for the first vector layer.
\<close>

theorem prepare_second_run_noop_witness:
  "prepare_source_inputs sample_engine source_catalog prepared_catalog ''tmp'' 32604 False
       rasters_done_world = (Inr prepared_catalog, after_first_run) \<and>
   list_all (\<lambda>(k, p). prepared_exists after_first_run k p = Inr True) prepared_catalog \<and>
   prepare_source_inputs sample_engine source_catalog prepared_catalog ''tmp'' 32604 False
       after_first_run = (Inr prepared_catalog, after_first_run) \<and>
   elog (snd (prepare_source_inputs sample_engine source_catalog prepared_catalog ''tmp'' 32604
       False after_first_run)) = elog after_first_run"
proof -
  have first: "prepare_source_inputs sample_engine source_catalog prepared_catalog ''tmp'' 32604
       False rasters_done_world = (Inr prepared_catalog, after_first_run)"
    by code_simp
  have all: "\<forall>(k, p) \<in> set prepared_catalog. prepared_exists after_first_run k p = Inr True"
    by code_simp
  have same: "after_first_run\<lparr>fs := fs_mkdir ''tmp'' (fs after_first_run)\<rparr> = after_first_run"
    by (simp add: after_first_run_def fs_mkdir_def fs_exists_def)
  show ?thesis
    using first all prepare_second_run_noop [OF first all]
    by (simp add: same list_all_iff)
qed

subsection \<open>The skip rule for vector layers\<close>

lemma log_grows_bindR:
  assumes "log_grows m" and "\<And>x. log_grows (f x)"
  shows "log_grows (bindR m f)"
  unfolding log_grows_def
proof
  fix w
  obtain r w' where mw: "m w = (r, w')" by (cases "m w")
  have a: "length (elog w) \<le> length (elog w')"
    using assms(1) mw by (auto simp: log_grows_def dest: spec [of _ w])
  show "length (elog w) \<le> length (elog (snd (bindR m f w)))"
  proof (cases r)
    case (Inl e)
    then show ?thesis using mw a by (simp add: bindR_def)
  next
    case (Inr x)
    have "length (elog w') \<le> length (elog (snd (f x w')))"
      using assms(2) [of x] by (simp add: log_grows_def)
    then show ?thesis using Inr mw a by (simp add: bindR_def)
  qed
qed

lemma log_grows_prims:
  "log_grows (ret x)" "log_grows (raise e)" "log_grows (ensure_dir p)"
  "log_grows (env_overwriteOutput b)" "log_grows (arcpy_Exists eng p)"
  "log_grows (arcpy_run eng t)" "log_grows (epsg_of_dataset eng p)"
  by (auto simp: log_grows_def run_defs Let_def split: sum.splits sref.splits)

lemma log_grows_if:
  "log_grows a \<Longrightarrow> log_grows b \<Longrightarrow> log_grows (if c then a else b)"
  by simp

lemma log_grows_case_option:
  "log_grows a \<Longrightarrow> (\<And>x. log_grows (b x)) \<Longrightarrow> log_grows (case_option a b v)"
  by (cases v) auto

lemma log_grows_scratch: "log_grows (ensure_scratch_gdb eng t n)"
  unfolding ensure_scratch_gdb_def Let_def
  by (intro log_grows_bindR log_grows_if log_grows_prims)

lemma env_then_grows:
  assumes "log_grows (f ())"
  shows "length (elog w) < length (elog (snd (bindR (env_overwriteOutput b) f w)))"
proof -
  have "length (elog (w\<lparr>elog := elog w @ [EnvOverwriteOutput b]\<rparr>))
      \<le> length (elog (snd (f () (w\<lparr>elog := elog w @ [EnvOverwriteOutput b]\<rparr>))))"
    using assms unfolding log_grows_def by blast
  then show ?thesis by (simp add: bindR_def env_overwriteOutput_def)
qed

lemma prep_vector_logs:
  "length (elog w) <
   length (elog (snd (prep_vector_to_gpkg eng src_fc out_gpkg out_layer epsg tmp ow w)))"
  unfolding prep_vector_to_gpkg_def Let_def
  by (intro env_then_grows log_grows_bindR log_grows_if log_grows_prims log_grows_case_option
      log_grows_scratch)

text \<open>
  C2, as the code has it. For a vector key that both catalogs know, the loop body leaves
  the world untouched exactly when the path stored for the key in the prepared catalog,
  the GeoPackage file, exists in the file system; whether the engine finds the named
  layer inside is never asked. When that file is absent the body is the call of
  \<^verbatim>\<open>prep_vector_to_gpkg\<close>.
\<close>

theorem vector_job_skips_iff_container:
  assumes "map_of prepared_outputs key = Some out_gpkg"
    and "map_of source_inputs key = Some src_fc"
  shows "(vector_job eng source_inputs prepared_outputs tmp epsg ow (key, layer) w = (Inr (), w))
           = path_exists w out_gpkg \<and>
         (\<not> path_exists w out_gpkg \<longrightarrow>
            vector_job eng source_inputs prepared_outputs tmp epsg ow (key, layer) w =
              bindR (prep_vector_to_gpkg eng src_fc out_gpkg layer epsg tmp ow) (\<lambda>_. ret ()) w)"
proof -
  let ?prep = "prep_vector_to_gpkg eng src_fc out_gpkg layer epsg tmp ow"
  have run: "vector_job eng source_inputs prepared_outputs tmp epsg ow (key, layer) w =
      (if path_exists w out_gpkg then (Inr (), w) else bindR ?prep (\<lambda>_. ret ()) w)"
    using assms by (simp add: vector_job_def dict_get_def bindR_def ret_def)
  have "snd (bindR ?prep (\<lambda>_. ret ()) w) \<noteq> w"
  proof
    assume e: "snd (bindR ?prep (\<lambda>_. ret ()) w) = w"
    have "snd (bindR ?prep (\<lambda>_. ret ()) w) = snd (?prep w)"
      by (simp add: bindR_def ret_def split: prod.splits sum.splits)
    with e prep_vector_logs [of w eng src_fc out_gpkg layer epsg tmp ow] show False by simp
  qed
  then show ?thesis using run by auto
qed

theorem vector_job_skips_iff_container_witness:
  "map_of prepared_catalog ''parcels'' = Some ''prepared/vectors.gpkg'' \<and>
   map_of source_catalog ''parcels'' = Some ''raw/parcels.shp'' \<and>
   \<not> path_exists rasters_done_world ''prepared/vectors.gpkg'' \<and>
   vector_job sample_engine source_catalog prepared_catalog ''tmp'' 32604 False
       (''parcels'', ''parcels'') rasters_done_world \<noteq> (Inr (), rasters_done_world) \<and>
   vector_job sample_engine source_catalog prepared_catalog ''tmp'' 32604 False
       (''parcels'', ''parcels'') rasters_done_world =
     bindR (prep_vector_to_gpkg sample_engine ''raw/parcels.shp'' ''prepared/vectors.gpkg''
       ''parcels'' 32604 ''tmp'' False) (\<lambda>_. ret ()) rasters_done_world"
proof -
  have p: "map_of prepared_catalog ''parcels'' = Some ''prepared/vectors.gpkg''"
    by (simp add: prepared_catalog_def)
  have s: "map_of source_catalog ''parcels'' = Some ''raw/parcels.shp''"
    by (simp add: source_catalog_def)
  have n: "\<not> path_exists rasters_done_world ''prepared/vectors.gpkg''"
    by (simp add: path_exists_def fs_exists_def rasters_done_world_def)
  show ?thesis
    using p s n
      vector_job_skips_iff_container [OF p s, of sample_engine "''tmp''" 32604 False
        "''parcels''" rasters_done_world]
    by blast
qed

text \<open>
  C2, as the claim states it, fails where the GeoPackage file exists and the engine finds
  no layer \<^verbatim>\<open>cesspools\<close> in it: the loop body returns at once with the world unchanged.
  In the whole run from \<open>rasters_done_world\<close> the first vector layer creates the shared
  file and the nine others are skipped for that reason.
\<close>

theorem vector_layer_skipped_counterexample:
  "path_exists after_first_run ''prepared/vectors.gpkg'' \<and>
   \<not> eng_exists sample_engine (fs after_first_run)
       (gpkg_layer_path ''prepared/vectors.gpkg'' ''cesspools'') \<and>
   vector_job sample_engine source_catalog prepared_catalog ''tmp'' 32604 False
       (''cesspools'', ''cesspools'') after_first_run = (Inr (), after_first_run)"
  by code_simp

section \<open>Properties of the download module\<close>

subsection \<open>Paths of the sidecar\<close>

lemma rev_takeWhile_suffix: "\<exists>pre. xs = pre @ rev (takeWhile P (rev xs))"
proof -
  have "rev xs = takeWhile P (rev xs) @ dropWhile P (rev xs)" by simp
  then have "xs = rev (dropWhile P (rev xs)) @ rev (takeWhile P (rev xs))"
    by (metis rev_append rev_rev_ident)
  then show ?thesis by blast
qed

lemma path_name_suffix: "\<exists>pre. p = pre @ path_name p"
  using rev_takeWhile_suffix [of p] by (auto simp: path_name_def)

lemma dot_ext_suffix:
  assumes "CHR ''.'' \<in> set n"
  shows "\<exists>pre. n = pre @ CHR ''.'' # rev (takeWhile (\<lambda>c. c \<noteq> CHR ''.'') (rev n))"
proof -
  let ?P = "\<lambda>c. c \<noteq> CHR ''.''"
  have ne: "dropWhile ?P (rev n) \<noteq> []" using assms by (auto simp: dropWhile_eq_Nil_conv)
  then have "hd (dropWhile ?P (rev n)) = CHR ''.''" using hd_dropWhile [of ?P "rev n"] by auto
  then obtain rest where d: "dropWhile ?P (rev n) = CHR ''.'' # rest"
    using ne by (cases "dropWhile ?P (rev n)") auto
  have "rev n = takeWhile ?P (rev n) @ CHR ''.'' # rest"
    using d takeWhile_dropWhile_id [of ?P "rev n"] by simp
  then have "n = rev (takeWhile ?P (rev n) @ CHR ''.'' # rest)" by (metis rev_rev_ident)
  then have "n = rev rest @ CHR ''.'' # rev (takeWhile ?P (rev n))" by simp
  then show ?thesis by blast
qed

lemma path_suffix_suffix: "\<exists>pre. p = pre @ path_suffix p"
proof -
  obtain a where a: "p = a @ path_name p" using path_name_suffix by blast
  have "\<exists>b. path_name p = b @ path_suffix p"
    using dot_ext_suffix [of "path_name p"] by (auto simp: path_suffix_def Let_def)
  then obtain b where "path_name p = b @ path_suffix p" by blast
  then have "p = (a @ b) @ path_suffix p" using a by simp
  then show ?thesis by blast
qed

text \<open>
  \<^verbatim>\<open>out_path.with_suffix(out_path.suffix + ".part")\<close> appends \<^verbatim>\<open>.part\<close> to a path
  that has a name.
\<close>

lemma with_suffix_part:
  assumes "path_name p \<noteq> []"
  shows "with_suffix p (path_suffix p @ s) = Inr (p @ s)"
proof -
  obtain pre where pre: "p = pre @ path_suffix p" using path_suffix_suffix by blast
  have "take (length p - length (path_suffix p)) p = pre"
    by (subst (2) pre)
       (simp add: pre [symmetric],
        metis pre append_eq_conv_conj length_append add_diff_cancel_right')
  then have "take (length p - length (path_suffix p)) p @ path_suffix p @ s = p @ s"
    using pre by simp
  then show ?thesis using assms by (simp add: with_suffix_def)
qed

lemma path_parent_neq:
  assumes "path_name p \<noteq> []"
  shows "path_parent p \<noteq> p"
proof -
  let ?d = "dropWhile (\<lambda>c. c \<noteq> CHR ''/'') (rev p)"
  have p: "p \<noteq> ''.''" and t: "takeWhile (\<lambda>c. c \<noteq> CHR ''/'') (rev p) \<noteq> []"
    using assms by (auto simp: path_name_def split: if_splits)
  have len: "length ?d \<le> length p"
    using length_dropWhile_le [of "\<lambda>c. c \<noteq> CHR ''/''" "rev p"] by simp
  show ?thesis
  proof (cases "?d = []")
    case True
    then show ?thesis using p by (simp add: path_parent_def)
  next
    case False
    show ?thesis
    proof (cases "tl ?d = []")
      case True
      have "p \<noteq> ''/''" using t by auto
      then show ?thesis using True False by (auto simp: path_parent_def Let_def)
    next
      case F2: False
      have "length (rev (tl ?d)) < length p" using len False by (cases ?d) auto
      then have "rev (tl ?d) \<noteq> p" by (metis less_irrefl)
      then show ?thesis using False F2 by (auto simp: path_parent_def Let_def)
    qed
  qed
qed


subsection \<open>The retry loop\<close>

lemma net_fold_write_chunk:
  "filter is_net_event (trace (fold (write_chunk p) cs w)) = filter is_net_event (trace w)"
  by (induction cs arbitrary: w) (auto simp: write_chunk_def)

lemma req_fold_write_chunk:
  "filter is_request (trace (fold (write_chunk p) cs w)) = filter is_request (trace w)"
  by (induction cs arbitrary: w) (auto simp: write_chunk_def)

lemma fetch_attempt_failing:
  assumes "\<forall>n u h. failing (net rem n u h)"
  shows "\<exists>e w'. fetch_attempt rem url tmp out hdr pos w = (Inl e, w') \<and>
           filter is_net_event (trace w') = filter is_net_event (trace w) @ [Request url hdr] \<and>
           filter is_request (trace w') = filter is_request (trace w) @ [Request url hdr]"
proof -
  have f: "failing (net rem (length (filter is_request (trace w))) url hdr)"
    using assms by blast
  show ?thesis
  proof (cases "net rem (length (filter is_request (trace w))) url hdr")
    case NoReply
    then show ?thesis by (simp add: fetch_attempt_def send_def)
  next
    case (Reply st chunks whole)
    then show ?thesis using f
      by (auto simp: fetch_attempt_def send_def Let_def net_fold_write_chunk
          req_fold_write_chunk open_file_def split: if_splits)
  qed
qed

lemma attempt_loop_all_fail:
  assumes "\<forall>n u h. failing (net rem n u h)"
  shows "fst (attempt_loop rem url tmp out hdr pos as w) = False \<and>
         filter is_net_event (trace (snd (attempt_loop rem url tmp out hdr pos as w))) =
           filter is_net_event (trace w) @
             concat (map (\<lambda>k. [Request url hdr, Sleep (min 60 (2 ^ nat k))]) as) \<and>
         length (filter is_request (trace (snd (attempt_loop rem url tmp out hdr pos as w)))) =
           length (filter is_request (trace w)) + length as"
proof (induction as arbitrary: w)
  case Nil
  then show ?case by simp
next
  case (Cons a as)
  obtain e w' where fa: "fetch_attempt rem url tmp out hdr pos w = (Inl e, w')"
    and n: "filter is_net_event (trace w') = filter is_net_event (trace w) @ [Request url hdr]"
    and r: "filter is_request (trace w') = filter is_request (trace w) @ [Request url hdr]"
    using fetch_attempt_failing [OF assms] by blast
  show ?case
    using Cons.IH [of "sleep (min 60 (2 ^ nat a)) w'"] fa n r
    by (simp add: sleep_def)
qed

text \<open>
  C4. Let the destination be absent (and a path with a name), let every reply be a
  failing one, and let the budget \<open>retries\<close> be a count. Then \<^verbatim>\<open>download_streaming\<close>
  raises \<^verbatim>\<open>RuntimeError\<close> with the message naming the attempt count and the destination's
  name. The requests and sleeps of the call, in order, are: for each \<open>k\<close> from \<open>1\<close> to
  \<open>retries\<close>, one request for the URL followed by a sleep of \<open>min 60 (2 ^ k)\<close> seconds, and
  nothing more; so exactly \<open>retries\<close> requests are made, and none after the last sleep.
\<close>

theorem download_streaming_retry_bound:
  assumes "\<not> path_exists w out_path" and "path_name out_path \<noteq> []"
    and "\<forall>n u h. failing (net rem n u h)" and "0 \<le> retries"
  shows "\<exists>hdr.
           fst (download_streaming rem url out_path overwrite retries w) =
             Inl (RuntimeError (''Failed after '' @ str_int retries @ '' attempts: ''
                    @ path_name out_path)) \<and>
           filter is_net_event
               (trace (snd (download_streaming rem url out_path overwrite retries w))) =
             filter is_net_event (trace w) @
               concat (map (\<lambda>k. [Request url hdr, Sleep (min 60 (2 ^ nat k))]) [1..retries]) \<and>
           int (length (filter is_request
                  (trace (snd (download_streaming rem url out_path overwrite retries w))))) =
             int (length (filter is_request (trace w))) + retries"
proof -
  let ?tmp = "out_path @ ''.part''"
  let ?w1 = "w\<lparr>fs := fs_mkdir (path_parent out_path) (fs w)\<rparr>"
  let ?pos = "if path_exists ?w1 ?tmp then file_size ?w1 ?tmp else 0"
  let ?hdr = "if ?pos > 0 \<and> \<not> overwrite then Some (''bytes='' @ str_nat ?pos @ ''-'') else None"
  have ws: "with_suffix out_path (path_suffix out_path @ ''.part'') = Inr ?tmp"
    using assms(2) by (rule with_suffix_part)
  note l = attempt_loop_all_fail [OF assms(3), of url ?tmp out_path ?hdr ?pos "[1..retries]" ?w1]
  have len: "int (length [1..retries]) = retries" using assms(4) by simp
  obtain b w2 where loop: "attempt_loop rem url ?tmp out_path ?hdr ?pos [1..retries] ?w1 = (b, w2)"
    by (cases "attempt_loop rem url ?tmp out_path ?hdr ?pos [1..retries] ?w1")
  have b: "b = False" using l loop by simp
  have ds: "download_streaming rem url out_path overwrite retries w =
      (Inl (RuntimeError (''Failed after '' @ str_int retries @ '' attempts: ''
         @ path_name out_path)), w2)"
    using assms(1) ws loop b by (simp add: download_streaming_def Let_def)
  show ?thesis
    apply (rule exI [of _ ?hdr])
    using l loop len by (simp add: ds)
qed

theorem download_streaming_retry_bound_witness:
  "\<not> path_exists blank_world ''raw/dem/maui.nc'' \<and> path_name ''raw/dem/maui.nc'' \<noteq> [] \<and>
   (\<forall>n u h. failing (net failing_remote n u h)) \<and> (0::int) \<le> 4 \<and>
   fst (download_streaming failing_remote ''http://x'' ''raw/dem/maui.nc'' False 4 blank_world) =
     Inl (RuntimeError ''Failed after 4 attempts: maui.nc'') \<and>
   filter is_net_event
       (trace (snd (download_streaming failing_remote ''http://x'' ''raw/dem/maui.nc'' False 4
          blank_world))) =
     [Request ''http://x'' None, Sleep 2, Request ''http://x'' None, Sleep 4,
      Request ''http://x'' None, Sleep 8, Request ''http://x'' None, Sleep 16]"
proof -
  have h1: "\<not> path_exists blank_world ''raw/dem/maui.nc''"
    by (simp add: path_exists_def fs_exists_def blank_world_def)
  have h2: "path_name ''raw/dem/maui.nc'' \<noteq> []" by (simp add: path_name_def)
  have h3: "\<forall>n u h. failing (net failing_remote n u h)"
    by (simp add: failing_remote_def flaky_net_def)
  have h4: "(0::int) \<le> 4" by simp
  have run: "download_streaming failing_remote ''http://x'' ''raw/dem/maui.nc'' False 4
      blank_world =
    (Inl (RuntimeError ''Failed after 4 attempts: maui.nc''),
     \<lparr>fs = [(''raw/dem'', Dir), (''raw/dem/maui.nc.part'', File ''abc'')],
      elog = [],
      trace = [Request ''http://x'' None, Sleep 2, Request ''http://x'' None, Sleep 4,
               Request ''http://x'' None, Open ''raw/dem/maui.nc.part'' False,
               Append ''raw/dem/maui.nc.part'' ''ab'', Append ''raw/dem/maui.nc.part'' ''c'',
               Sleep 8, Request ''http://x'' None, Sleep 16]\<rparr>)"
    by code_simp
  show ?thesis
    using h1 h2 h3 h4
      download_streaming_retry_bound [OF h1 h2 h3 h4, of "''http://x''" False]
    by (simp add: run)
qed

text \<open>
  C5. The header and the file mode are fixed before the loop (lines 115 to 118) and not
  revisited by a retry. Here the sidecar holds two bytes at the start; the first attempt
  asks for \<^verbatim>\<open>bytes=2-\<close>, appends two bytes and breaks off. The second attempt runs over a
  sidecar of four bytes, yet it asks for \<^verbatim>\<open>bytes=2-\<close> again and appends what it gets:
  the destination ends up with eight bytes for a resource of six.
\<close>

theorem resume_offset_not_refreshed:
  "download_streaming range_remote ''http://x'' ''raw/dem/maui.nc'' False 8 part_world =
     (Inr (),
      \<lparr>fs = [(''raw/dem'', Dir), (''raw/dem/maui.nc'', File ''abcdcdef'')],
       elog = [],
       trace = [Request ''http://x'' (Some ''bytes=2-''), Open ''raw/dem/maui.nc.part'' True,
                Append ''raw/dem/maui.nc.part'' ''cd'', Sleep 2,
                Request ''http://x'' (Some ''bytes=2-''), Open ''raw/dem/maui.nc.part'' True,
                Append ''raw/dem/maui.nc.part'' ''cdef'',
                Replace ''raw/dem/maui.nc.part'' ''raw/dem/maui.nc'']\<rparr>)"
  by code_simp

text \<open>
  With no sidecar at the start the same slip shows the other way round: the third attempt
  leaves three bytes in the sidecar, and the attempts after it still send no
  \<^verbatim>\<open>Range\<close> header and open the sidecar with \<^verbatim>\<open>"wb"\<close>.
\<close>

lemma retry_without_range_header:
  "trace (snd (download_streaming failing_remote ''http://x'' ''raw/dem/maui.nc'' False 4
      blank_world)) =
     [Request ''http://x'' None, Sleep 2, Request ''http://x'' None, Sleep 4,
      Request ''http://x'' None, Open ''raw/dem/maui.nc.part'' False,
      Append ''raw/dem/maui.nc.part'' ''ab'', Append ''raw/dem/maui.nc.part'' ''c'',
      Sleep 8, Request ''http://x'' None, Sleep 16]"
  by code_simp

text \<open>The first attempt of a call does carry the sidecar's size.\<close>

lemma trace_write_chunk: "trace (write_chunk p c w) = trace w @ [Append p c]"
  by (simp add: write_chunk_def)

lemma fold_write_chunk_trace:
  "trace (fold (write_chunk p) cs w) = trace w @ map (Append p) cs"
  by (induction cs arbitrary: w) (simp_all add: trace_write_chunk)

lemma fetch_attempt_trace:
  "\<exists>evs. trace (snd (fetch_attempt rem url tmp out hdr pos w)) = trace w @ Request url hdr # evs"
proof (cases "net rem (length (filter is_request (trace w))) url hdr")
  case NoReply
  then show ?thesis by (simp add: fetch_attempt_def send_def)
next
  case (Reply st chunks whole)
  then show ?thesis
    by (simp add: fetch_attempt_def send_def Let_def fold_write_chunk_trace open_file_def
        replace_def)
qed

lemma attempt_loop_trace:
  "\<exists>evs. trace (snd (attempt_loop rem url tmp out hdr pos as w)) = trace w @ evs"
proof (induction as arbitrary: w)
  case Nil
  show ?case by simp
next
  case (Cons a as)
  obtain r w1 where fa: "fetch_attempt rem url tmp out hdr pos w = (r, w1)"
    by (cases "fetch_attempt rem url tmp out hdr pos w")
  obtain e1 where e1: "trace w1 = trace w @ Request url hdr # e1"
    using fetch_attempt_trace [of rem url tmp out hdr pos w] fa by auto
  show ?case
  proof (cases r)
    case (Inr u)
    then show ?thesis using fa e1 by simp
  next
    case (Inl e)
    obtain e2 where
      "trace (snd (attempt_loop rem url tmp out hdr pos as (sleep (min 60 (2 ^ nat a)) w1))) =
         trace (sleep (min 60 (2 ^ nat a)) w1) @ e2"
      using Cons.IH by blast
    then show ?thesis using fa Inl e1 by (simp add: sleep_def)
  qed
qed

lemma first_attempt_resumes:
  assumes "\<not> path_exists w out_path" and "path_name out_path \<noteq> []"
    and "map_of (fs w) (out_path @ ''.part'') = Some (File b)" and "b \<noteq> []"
    and "1 \<le> retries"
  shows "\<exists>rest. trace (snd (download_streaming rem url out_path False retries w)) =
           trace w @ Request url (Some (''bytes='' @ str_nat (length b) @ ''-'')) # rest"
proof -
  define tmp where "tmp = out_path @ ''.part''"
  define w1 where "w1 = w\<lparr>fs := fs_mkdir (path_parent out_path) (fs w)\<rparr>"
  define hdr where "hdr = Some (''bytes='' @ str_nat (length b) @ ''-'')"
  have ws: "with_suffix out_path (path_suffix out_path @ ''.part'') = Inr tmp"
    unfolding tmp_def using assms(2) by (rule with_suffix_part)
  have m: "map_of (fs w1) tmp = Some (File b)"
    using assms(3) by (simp add: fs_mkdir_def w1_def tmp_def)
  have tw: "trace w1 = trace w" by (simp add: w1_def)
  have up: "[1..retries] = 1 # [2..retries]" using upto_rec1 [of 1 retries] assms(5) by simp
  obtain r w2 where fa: "fetch_attempt rem url tmp out_path hdr (length b) w1 = (r, w2)"
    by (cases "fetch_attempt rem url tmp out_path hdr (length b) w1")
  have "\<exists>evs. trace w2 = trace w @ Request url hdr # evs"
    using fetch_attempt_trace [of rem url tmp out_path hdr "length b" w1]
    by (simp add: fa tw)
  then obtain e1 where e1: "trace w2 = trace w @ Request url hdr # e1"
    by (elim exE)
  obtain e2 where e2:
    "trace (snd (attempt_loop rem url tmp out_path hdr (length b) [2..retries]
        (sleep (min 60 (2 ^ nat 1)) w2))) = trace (sleep (min 60 (2 ^ nat 1)) w2) @ e2"
    using attempt_loop_trace [of rem url tmp out_path hdr "length b" "[2..retries]"
        "sleep (min 60 (2 ^ nat 1)) w2"] by (elim exE)
  have loop: "\<exists>rest. trace (snd (attempt_loop rem url tmp out_path hdr (length b) [1..retries] w1)) =
      trace w @ Request url hdr # rest"
  proof (cases r)
    case (Inr u)
    then show ?thesis using fa e1 by (simp add: up)
  next
    case (Inl e)
    then show ?thesis using fa e1 e2 by (simp add: up sleep_def)
  qed
  have ex: "path_exists w1 tmp" and sz: "file_size w1 tmp = length b"
    using m by (simp_all add: path_exists_def fs_exists_def file_size_def)
  have eq: "snd (download_streaming rem url out_path False retries w) =
      snd (attempt_loop rem url tmp out_path hdr (length b) [1..retries] w1)"
    using assms(1,4) ws ex sz
    by (simp add: download_streaming_def Let_def w1_def [symmetric] hdr_def
        split: prod.splits bool.splits)
  show ?thesis unfolding eq using loop by (simp only: hdr_def)
qed

subsection \<open>The destination during a fetch\<close>

lemma map_of_fs_write_other: "q \<noteq> p \<Longrightarrow> map_of (fs_write p b f) q = map_of f q"
  by (simp add: fs_write_def update_conv')

lemma map_of_fs_mkdir_other: "q \<noteq> p \<Longrightarrow> map_of (fs_mkdir p f) q = map_of f q"
  by (simp add: fs_mkdir_def map_add_def split: option.splits)

lemma out_fold_write_chunk:
  assumes "tmp \<noteq> out"
  shows "map_of (fs (fold (write_chunk tmp) cs w)) out = map_of (fs w) out \<and>
         filter (touches out) (trace (fold (write_chunk tmp) cs w)) = filter (touches out) (trace w)"
  using assms
  by (induction cs arbitrary: w)
     (auto simp: write_chunk_def map_of_fs_write_other split: option.splits node.splits)

lemma tmp_fold_write_chunk:
  "fs_exists (fs w) tmp \<Longrightarrow> fs_exists (fs (fold (write_chunk tmp) cs w)) tmp"
  by (induction cs arbitrary: w)
     (auto simp: write_chunk_def fs_exists_def fs_write_def update_conv' split: option.splits node.splits)

lemma fetch_attempt_dest:
  assumes "tmp \<noteq> out" and "fetch_attempt rem url tmp out hdr pos w = (r, w')"
  shows "case r of
           Inl e \<Rightarrow> map_of (fs w') out = map_of (fs w) out \<and>
                    filter (touches out) (trace w') = filter (touches out) (trace w)
         | Inr u \<Rightarrow> (\<exists>pre. trace w' = pre @ [Replace tmp out] \<and>
                      filter (touches out) pre = filter (touches out) (trace w)) \<and>
                    fs_exists (fs w') out \<and> \<not> fs_exists (fs w') tmp"
proof (cases "net rem (length (filter is_request (trace w))) url hdr")
  case NoReply
  then show ?thesis using assms by (auto simp: fetch_attempt_def send_def)
next
  case (Reply st chunks whole)
  let ?w1 = "w\<lparr>trace := trace w @ [Request url hdr]\<rparr>"
  let ?w2 = "open_file tmp (hdr \<noteq> None \<and> pos > 0) ?w1"
  let ?w3 = "fold (write_chunk tmp) (filter (\<lambda>c. c \<noteq> []) chunks) ?w2"
  have o2: "map_of (fs ?w2) out = map_of (fs w) out"
    and t2: "filter (touches out) (trace ?w2) = filter (touches out) (trace w)"
    and e2: "fs_exists (fs ?w2) tmp"
    using assms(1) by (auto simp: open_file_def map_of_fs_write_other fs_exists_def fs_write_def update_conv')
  have o3: "map_of (fs ?w3) out = map_of (fs w) out"
    and t3: "filter (touches out) (trace ?w3) = filter (touches out) (trace w)"
    using out_fold_write_chunk [OF assms(1), of _ ?w2] o2 t2 by auto
  have e3: "fs_exists (fs ?w3) tmp" using e2 by (rule tmp_fold_write_chunk)
  show ?thesis
  proof (cases "400 \<le> st \<and> st < 600")
    case True
    then show ?thesis using assms Reply by (auto simp: fetch_attempt_def send_def)
  next
    case False
    show ?thesis
    proof (cases whole)
      case True
      have w': "w' = replace tmp out ?w3" and r: "r = Inr ()"
        using assms(2) Reply False True by (auto simp: fetch_attempt_def send_def Let_def)
      obtain n where n: "map_of (fs ?w3) tmp = Some n" using e3 by (auto simp: fs_exists_def)
      have "fs_exists (fs w') out" "\<not> fs_exists (fs w') tmp"
        using n assms(1) by (auto simp: w' replace_def fs_exists_def update_conv' delete_conv')
      moreover have "trace w' = trace ?w3 @ [Replace tmp out]" by (simp add: w' replace_def)
      ultimately show ?thesis using r t3 by auto
    next
      case F: False
      have "w' = ?w3" "r = Inl TransportError"
        using assms(2) Reply False F by (auto simp: fetch_attempt_def send_def Let_def)
      then show ?thesis using o3 t3 by simp
    qed
  qed
qed

lemma attempt_loop_dest:
  assumes "tmp \<noteq> out" and "attempt_loop rem url tmp out hdr pos as w = (b, w')"
  shows "if b
         then (\<exists>pre. trace w' = pre @ [Replace tmp out] \<and>
                 filter (touches out) pre = filter (touches out) (trace w)) \<and>
              fs_exists (fs w') out \<and> \<not> fs_exists (fs w') tmp
         else map_of (fs w') out = map_of (fs w) out \<and>
              filter (touches out) (trace w') = filter (touches out) (trace w)"
  using assms(2)
proof (induction as arbitrary: w)
  case Nil
  then show ?case by auto
next
  case (Cons a as)
  obtain r w1 where fa: "fetch_attempt rem url tmp out hdr pos w = (r, w1)"
    by (cases "fetch_attempt rem url tmp out hdr pos w")
  note d = fetch_attempt_dest [OF assms(1) fa]
  show ?case
  proof (cases r)
    case (Inr u)
    then have "b = True" "w' = w1" using Cons.prems fa by auto
    then show ?thesis using d Inr by simp
  next
    case (Inl e)
    let ?w2 = "sleep (min 60 (2 ^ nat a)) w1"
    have loop: "attempt_loop rem url tmp out hdr pos as ?w2 = (b, w')"
      using Cons.prems fa Inl by simp
    have s: "map_of (fs ?w2) out = map_of (fs w) out"
      "filter (touches out) (trace ?w2) = filter (touches out) (trace w)"
      using d Inl by (auto simp: sleep_def)
    show ?thesis using Cons.IH [OF loop] s by (auto split: if_splits)
  qed
qed

lemma fold_write_chunk_content:
  "map_of (fs w) tmp = Some (File b) \<Longrightarrow>
   map_of (fs (fold (write_chunk tmp) cs w)) tmp = Some (File (b @ concat cs))"
proof (induction cs arbitrary: w b)
  case Nil
  then show ?case by simp
next
  case (Cons c cs)
  have "map_of (fs (write_chunk tmp c w)) tmp = Some (File (b @ c))"
    using Cons.prems by (simp add: write_chunk_def fs_write_def update_conv')
  from Cons.IH [OF this] show ?case by simp
qed

lemma concat_filter_nonempty: "concat (filter (\<lambda>c. c \<noteq> []) cs) = concat cs"
  by (induction cs) auto

lemma open_file_content:
  assumes "app \<longrightarrow> (\<exists>b. map_of (fs w) tmp = Some (File b))"
  shows "map_of (fs (open_file tmp app w)) tmp =
           Some (File (if app then (case map_of (fs w) tmp of Some (File b) \<Rightarrow> b | _ \<Rightarrow> []) else []))"
  using assms
  by (auto simp: open_file_def fs_exists_def fs_write_def update_conv')

lemma fetch_attempt_success:
  assumes "tmp \<noteq> out" and "fetch_attempt rem url tmp out hdr pos w = (Inr u, w')"
    and "(hdr \<noteq> None \<and> 0 < pos) \<longrightarrow> (\<exists>b. map_of (fs w) tmp = Some (File b))"
  shows "\<exists>st chunks old.
           net rem (length (filter is_request (trace w))) url hdr = Reply st chunks True \<and>
           \<not> (400 \<le> st \<and> st < 600) \<and>
           trace w' = trace w @ Request url hdr # Open tmp (hdr \<noteq> None \<and> 0 < pos) #
                        map (Append tmp) (filter (\<lambda>c. c \<noteq> []) chunks) @ [Replace tmp out] \<and>
           map_of (fs w') out = Some (File (old @ concat chunks)) \<and>
           ((hdr \<noteq> None \<and> 0 < pos) \<or> old = []) \<and>
           \<not> fs_exists (fs w') tmp"
proof (cases "net rem (length (filter is_request (trace w))) url hdr")
  case NoReply
  then show ?thesis using assms(2) by (simp add: fetch_attempt_def send_def)
next
  case (Reply st chunks whole)
  let ?app = "hdr \<noteq> None \<and> 0 < pos"
  let ?w1 = "w\<lparr>trace := trace w @ [Request url hdr]\<rparr>"
  let ?w2 = "open_file tmp ?app ?w1"
  let ?cs = "filter (\<lambda>c. c \<noteq> []) chunks"
  let ?w3 = "fold (write_chunk tmp) ?cs ?w2"
  define old where
    "old = (if ?app then (case map_of (fs w) tmp of Some (File b) \<Rightarrow> b | _ \<Rightarrow> []) else [])"
  have ok: "\<not> (400 \<le> st \<and> st < 600)" and wh: "whole" and w': "w' = replace tmp out ?w3"
    using assms(2) Reply by (auto simp: fetch_attempt_def send_def Let_def split: if_splits)
  have "?app \<longrightarrow> (\<exists>b. map_of (fs ?w1) tmp = Some (File b))" using assms(3) by simp
  from open_file_content [OF this]
  have c2: "map_of (fs ?w2) tmp = Some (File old)" by (simp add: old_def)
  have c3: "map_of (fs ?w3) tmp = Some (File (old @ concat chunks))"
    using fold_write_chunk_content [OF c2, of ?cs] by (simp add: concat_filter_nonempty)
  have t3: "trace ?w3 = trace w @ Request url hdr # Open tmp ?app # map (Append tmp) ?cs"
    by (simp add: fold_write_chunk_trace open_file_def)
  have d: "map_of (fs w') out = Some (File (old @ concat chunks))" "\<not> fs_exists (fs w') tmp"
    using c3 assms(1) by (auto simp: w' replace_def fs_exists_def update_conv' delete_conv')
  have t: "trace w' = trace w @ Request url hdr # Open tmp ?app # map (Append tmp) ?cs
      @ [Replace tmp out]"
    using t3 by (simp add: w' replace_def)
  have o: "?app \<or> old = []" by (simp add: old_def)
  have r: "net rem (length (filter is_request (trace w))) url hdr = Reply st chunks True"
    using Reply wh by simp
  show ?thesis
    by (rule exI [of _ st], rule exI [of _ chunks], rule exI [of _ old])
       (intro conjI r ok t d o)
qed

lemma fold_write_chunk_file:
  "\<exists>b. map_of (fs w) tmp = Some (File b) \<Longrightarrow>
   \<exists>b. map_of (fs (fold (write_chunk tmp) cs w)) tmp = Some (File b)"
  using fold_write_chunk_content [of w tmp _ cs] by blast

lemma fetch_attempt_keeps_sidecar:
  assumes "\<exists>b. map_of (fs w) tmp = Some (File b)"
    and "fetch_attempt rem url tmp out hdr pos w = (Inl e, w')"
    and "hdr \<noteq> None \<and> 0 < pos"
  shows "\<exists>b. map_of (fs w') tmp = Some (File b)"
proof (cases "net rem (length (filter is_request (trace w))) url hdr")
  case NoReply
  then show ?thesis using assms by (auto simp: fetch_attempt_def send_def)
next
  case (Reply st chunks whole)
  let ?w2 = "open_file tmp True (w\<lparr>trace := trace w @ [Request url hdr]\<rparr>)"
  have "\<exists>b. map_of (fs ?w2) tmp = Some (File b)"
    using assms(1) by (auto simp: open_file_def fs_exists_def)
  from fold_write_chunk_file [OF this]
  have "\<exists>b. map_of (fs (fold (write_chunk tmp) (filter (\<lambda>c. c \<noteq> []) chunks) ?w2)) tmp
           = Some (File b)" .
  then show ?thesis
    using assms Reply
    by (auto simp: fetch_attempt_def send_def Let_def split: if_splits)
qed

lemma attempt_loop_success:
  assumes "tmp \<noteq> out" and "attempt_loop rem url tmp out hdr pos as w = (True, w')"
    and "(hdr \<noteq> None \<and> 0 < pos) \<longrightarrow> (\<exists>b. map_of (fs w) tmp = Some (File b))"
  shows "\<exists>pre st chunks old.
           trace w' = pre @ Request url hdr # Open tmp (hdr \<noteq> None \<and> 0 < pos) #
                        map (Append tmp) (filter (\<lambda>c. c \<noteq> []) chunks) @ [Replace tmp out] \<and>
           net rem (length (filter is_request pre)) url hdr = Reply st chunks True \<and>
           \<not> (400 \<le> st \<and> st < 600) \<and>
           filter (touches out) pre = filter (touches out) (trace w) \<and>
           map_of (fs w') out = Some (File (old @ concat chunks)) \<and>
           ((hdr \<noteq> None \<and> 0 < pos) \<or> old = []) \<and>
           \<not> fs_exists (fs w') tmp"
  using assms(2,3)
proof (induction as arbitrary: w)
  case Nil
  then show ?case by simp
next
  case (Cons a as)
  obtain r w1 where fa: "fetch_attempt rem url tmp out hdr pos w = (r, w1)"
    by (cases "fetch_attempt rem url tmp out hdr pos w")
  show ?case
  proof (cases r)
    case (Inr u)
    then have w1: "w1 = w'" using Cons.prems(1) fa by simp
    from fetch_attempt_success [OF assms(1) fa [unfolded Inr w1] Cons.prems(2)]
    obtain st chunks old where
      "net rem (length (filter is_request (trace w))) url hdr = Reply st chunks True"
      "\<not> (400 \<le> st \<and> st < 600)"
      "trace w' = trace w @ Request url hdr # Open tmp (hdr \<noteq> None \<and> 0 < pos) #
                        map (Append tmp) (filter (\<lambda>c. c \<noteq> []) chunks) @ [Replace tmp out]"
      "map_of (fs w') out = Some (File (old @ concat chunks))"
      "(hdr \<noteq> None \<and> 0 < pos) \<or> old = []"
      "\<not> fs_exists (fs w') tmp"
      by blast
    then show ?thesis
      by (intro exI [of _ "trace w"] exI [of _ st] exI [of _ chunks] exI [of _ old]) simp
  next
    case (Inl e)
    let ?w2 = "sleep (min 60 (2 ^ nat a)) w1"
    have loop: "attempt_loop rem url tmp out hdr pos as ?w2 = (True, w')"
      using Cons.prems(1) fa Inl by simp
    have d: "filter (touches out) (trace w1) = filter (touches out) (trace w)"
      using fetch_attempt_dest [OF assms(1) fa] Inl by simp
    have inv: "(hdr \<noteq> None \<and> 0 < pos) \<longrightarrow> (\<exists>b. map_of (fs ?w2) tmp = Some (File b))"
    proof
      assume h: "hdr \<noteq> None \<and> 0 < pos"
      then have "\<exists>b. map_of (fs w) tmp = Some (File b)" using Cons.prems(2) by simp
      from fetch_attempt_keeps_sidecar [OF this fa [unfolded Inl] h]
      show "\<exists>b. map_of (fs ?w2) tmp = Some (File b)" by (simp add: sleep_def)
    qed
    from Cons.IH [OF loop inv]
    obtain pre st chunks old where
      a: "trace w' = pre @ Request url hdr # Open tmp (hdr \<noteq> None \<and> 0 < pos) #
                        map (Append tmp) (filter (\<lambda>c. c \<noteq> []) chunks) @ [Replace tmp out]"
      and b: "net rem (length (filter is_request pre)) url hdr = Reply st chunks True"
        "\<not> (400 \<le> st \<and> st < 600)"
      and c: "filter (touches out) pre = filter (touches out) (trace ?w2)"
      and e: "map_of (fs w') out = Some (File (old @ concat chunks))"
        "(hdr \<noteq> None \<and> 0 < pos) \<or> old = []"
        "\<not> fs_exists (fs w') tmp"
      by blast
    have c': "filter (touches out) pre = filter (touches out) (trace w)"
      using c d by (simp add: sleep_def)
    show ?thesis
      by (rule exI [of _ pre], rule exI [of _ st], rule exI [of _ chunks], rule exI [of _ old])
         (intro conjI a b c' e)
  qed
qed

lemma file_size_pos: "0 < file_size w p \<Longrightarrow> \<exists>b. map_of (fs w) p = Some (File b)"
  by (auto simp: file_size_def split: option.splits node.splits)

text \<open>
  C6. For a destination with a name, whatever the remote side does: when
  \<^verbatim>\<open>download_streaming\<close> raises, the entry at the destination path is the one from
  before the call (so a destination that was absent is still absent) and no file operation
  of the call has opened, written or renamed that path. When it returns, either it skipped
  (destination present, no overwrite, world unchanged), or the call ends with one last
  attempt whose reply arrived whole with a good status: the request, the opening of the
  sidecar, one write for every non-empty chunk of that reply, and then the rename of the
  sidecar onto the destination as the last event. Nothing before that attempt touched the
  destination. Afterwards the sidecar is gone and the destination is a file that holds
  the whole body of that reply, preceded by the bytes the sidecar held only when it was
  opened for appending.
\<close>

theorem download_streaming_atomic:
  assumes "path_name out_path \<noteq> []"
    and "download_streaming rem url out_path overwrite retries w = (r, w')"
  shows "case r of
           Inl e \<Rightarrow> map_of (fs w') out_path = map_of (fs w) out_path \<and>
                    filter (touches out_path) (trace w') = filter (touches out_path) (trace w)
         | Inr u \<Rightarrow> (path_exists w out_path \<and> \<not> overwrite \<and> w' = w) \<or>
                    (\<exists>pre hdr app st chunks old.
                       trace w' = pre @ Request url hdr # Open (out_path @ ''.part'') app #
                         map (Append (out_path @ ''.part'')) (filter (\<lambda>c. c \<noteq> []) chunks) @
                         [Replace (out_path @ ''.part'') out_path] \<and>
                       net rem (length (filter is_request pre)) url hdr = Reply st chunks True \<and>
                       \<not> (400 \<le> st \<and> st < 600) \<and>
                       filter (touches out_path) pre = filter (touches out_path) (trace w) \<and>
                       map_of (fs w') out_path = Some (File (old @ concat chunks)) \<and>
                       (app \<or> old = []) \<and>
                       \<not> fs_exists (fs w') (out_path @ ''.part''))"
proof (cases "path_exists w out_path \<and> \<not> overwrite")
  case True
  then show ?thesis using assms(2) by (auto simp: download_streaming_def)
next
  case False
  define tmp where "tmp = out_path @ ''.part''"
  define w1 where "w1 = w\<lparr>fs := fs_mkdir (path_parent out_path) (fs w)\<rparr>"
  define pos where "pos = (if path_exists w1 tmp then file_size w1 tmp else 0)"
  define hdr where "hdr = (if pos > 0 \<and> \<not> overwrite
                           then Some (''bytes='' @ str_nat pos @ ''-'') else None)"
  have ws: "with_suffix out_path (path_suffix out_path @ ''.part'') = Inr tmp"
    unfolding tmp_def using assms(1) by (rule with_suffix_part)
  have ne: "tmp \<noteq> out_path" by (simp add: tmp_def)
  have m: "map_of (fs w1) out_path = map_of (fs w) out_path"
    using path_parent_neq [OF assms(1)] by (simp add: map_of_fs_mkdir_other w1_def)
  have tw: "trace w1 = trace w" by (simp add: w1_def)
  obtain b w2 where loop: "attempt_loop rem url tmp out_path hdr pos [1..retries] w1 = (b, w2)"
    by (cases "attempt_loop rem url tmp out_path hdr pos [1..retries] w1")
  have eq: "download_streaming rem url out_path overwrite retries w =
      (case attempt_loop rem url tmp out_path hdr pos [1..retries] w1 of
         (True, w2) \<Rightarrow> (Inr (), w2)
       | (False, w2) \<Rightarrow>
           (Inl (RuntimeError (''Failed after '' @ str_int retries @ '' attempts: ''
              @ path_name out_path)), w2))"
    using False ws
    by (auto simp: download_streaming_def Let_def w1_def [symmetric] pos_def hdr_def)
  have res: "(r, w') = (if b then (Inr (), w2) else
        (Inl (RuntimeError (''Failed after '' @ str_int retries @ '' attempts: ''
           @ path_name out_path)), w2))"
    using assms(2) unfolding eq loop by (cases b) simp_all
  show ?thesis
  proof (cases b)
    case True
    have inv: "(hdr \<noteq> None \<and> 0 < pos) \<longrightarrow> (\<exists>b. map_of (fs w1) tmp = Some (File b))"
      using file_size_pos [of w1 tmp] by (auto simp: pos_def split: if_splits)
    have loopT: "attempt_loop rem url tmp out_path hdr pos [1..retries] w1 = (True, w2)"
      using loop True by simp
    from attempt_loop_success [OF ne loopT inv]
    have "\<exists>pre st chunks old.
           trace w2 = pre @ Request url hdr # Open tmp (hdr \<noteq> None \<and> 0 < pos) #
                        map (Append tmp) (filter (\<lambda>c. c \<noteq> []) chunks) @ [Replace tmp out_path] \<and>
           net rem (length (filter is_request pre)) url hdr = Reply st chunks True \<and>
           \<not> (400 \<le> st \<and> st < 600) \<and>
           filter (touches out_path) pre = filter (touches out_path) (trace w) \<and>
           map_of (fs w2) out_path = Some (File (old @ concat chunks)) \<and>
           ((hdr \<noteq> None \<and> 0 < pos) \<or> old = []) \<and>
           \<not> fs_exists (fs w2) tmp"
      by (simp only: tw)
    then have "\<exists>pre hdr app st chunks old.
           trace w2 = pre @ Request url hdr # Open tmp app #
                        map (Append tmp) (filter (\<lambda>c. c \<noteq> []) chunks) @ [Replace tmp out_path] \<and>
           net rem (length (filter is_request pre)) url hdr = Reply st chunks True \<and>
           \<not> (400 \<le> st \<and> st < 600) \<and>
           filter (touches out_path) pre = filter (touches out_path) (trace w) \<and>
           map_of (fs w2) out_path = Some (File (old @ concat chunks)) \<and>
           (app \<or> old = []) \<and>
           \<not> fs_exists (fs w2) tmp"
      by blast
    moreover have "r = Inr ()" "w' = w2" using res True by simp_all
    ultimately show ?thesis by (simp add: tmp_def)
  next
    case F: False
    note d = attempt_loop_dest [OF ne loop]
    have "r = Inl (RuntimeError (''Failed after '' @ str_int retries @ '' attempts: ''
           @ path_name out_path))" "w' = w2" using res F by simp_all
    then show ?thesis using d F m tw by simp
  qed
qed

theorem download_streaming_atomic_witness:
  "path_name ''raw/dem/maui.nc'' \<noteq> [] \<and>
   \<not> path_exists blank_world ''raw/dem/maui.nc'' \<and>
   fst (download_streaming range_remote ''http://x'' ''raw/dem/maui.nc'' False 8 blank_world) =
     Inr () \<and>
   (\<exists>pre hdr app st chunks old.
      trace (snd (download_streaming range_remote ''http://x'' ''raw/dem/maui.nc'' False 8
                    blank_world)) =
        pre @ Request ''http://x'' hdr # Open (''raw/dem/maui.nc'' @ ''.part'') app #
          map (Append (''raw/dem/maui.nc'' @ ''.part'')) (filter (\<lambda>c. c \<noteq> []) chunks) @
          [Replace (''raw/dem/maui.nc'' @ ''.part'') ''raw/dem/maui.nc''] \<and>
      net range_remote (length (filter is_request pre)) ''http://x'' hdr = Reply st chunks True \<and>
      \<not> (400 \<le> st \<and> st < 600) \<and>
      filter (touches ''raw/dem/maui.nc'') pre = filter (touches ''raw/dem/maui.nc'') (trace blank_world) \<and>
      map_of (fs (snd (download_streaming range_remote ''http://x'' ''raw/dem/maui.nc'' False 8
                    blank_world))) ''raw/dem/maui.nc'' = Some (File (old @ concat chunks)) \<and>
      (app \<or> old = []) \<and>
      \<not> fs_exists (fs (snd (download_streaming range_remote ''http://x'' ''raw/dem/maui.nc''
                    False 8 blank_world))) (''raw/dem/maui.nc'' @ ''.part'')) \<and>
   map_of (fs (snd (download_streaming range_remote ''http://x'' ''raw/dem/maui.nc'' False 8
                    blank_world))) ''raw/dem/maui.nc'' = Some (File ''abcdef'')"
proof -
  have h: "path_name ''raw/dem/maui.nc'' \<noteq> []" by (simp add: path_name_def)
  have n: "\<not> path_exists blank_world ''raw/dem/maui.nc''"
    by (simp add: path_exists_def fs_exists_def blank_world_def)
  obtain r w' where run:
    "download_streaming range_remote ''http://x'' ''raw/dem/maui.nc'' False 8 blank_world = (r, w')"
    by (cases "download_streaming range_remote ''http://x'' ''raw/dem/maui.nc'' False 8 blank_world")
  have ev: "download_streaming range_remote ''http://x'' ''raw/dem/maui.nc'' False 8 blank_world =
    (Inr (),
     \<lparr>fs = [(''raw/dem'', Dir), (''raw/dem/maui.nc'', File ''abcdef'')],
      elog = [],
      trace = [Request ''http://x'' None, Open ''raw/dem/maui.nc.part'' False,
               Append ''raw/dem/maui.nc.part'' ''abcdef'',
               Replace ''raw/dem/maui.nc.part'' ''raw/dem/maui.nc'']\<rparr>)"
    by code_simp
  have r: "r = Inr ()" using run ev by simp
  have c: "map_of (fs w') ''raw/dem/maui.nc'' = Some (File ''abcdef'')" using run ev by auto
  note t = download_streaming_atomic [OF h run]
  have "\<exists>pre hdr app st chunks old.
      trace w' =
        pre @ Request ''http://x'' hdr # Open (''raw/dem/maui.nc'' @ ''.part'') app #
          map (Append (''raw/dem/maui.nc'' @ ''.part'')) (filter (\<lambda>c. c \<noteq> []) chunks) @
          [Replace (''raw/dem/maui.nc'' @ ''.part'') ''raw/dem/maui.nc''] \<and>
      net range_remote (length (filter is_request pre)) ''http://x'' hdr = Reply st chunks True \<and>
      \<not> (400 \<le> st \<and> st < 600) \<and>
      filter (touches ''raw/dem/maui.nc'') pre = filter (touches ''raw/dem/maui.nc'') (trace blank_world) \<and>
      map_of (fs w') ''raw/dem/maui.nc'' = Some (File (old @ concat chunks)) \<and>
      (app \<or> old = []) \<and>
      \<not> fs_exists (fs w') (''raw/dem/maui.nc'' @ ''.part'')"
    using t n unfolding r by (simp only: sum.case simp_thms)
  then show ?thesis
    using h n r c unfolding run by (simp only: fst_conv snd_conv simp_thms)
qed

subsection \<open>Skip rules of the acquisition stages\<close>

text \<open>
  The rules of this part are read off the trace of a whole run of \<^verbatim>\<open>main\<close>. The tool
  is the predicate \<^const>\<open>keeps\<close>: which paths a step leaves on disk, and which kinds of
  events it can add. It is closed under sequencing and loops.
\<close>

lemma keepsI:
  assumes "\<And>w::world. \<forall>q \<in> Q. fs_exists (fs w) q \<Longrightarrow>
     (\<forall>q \<in> Q. fs_exists (fs (snd (m w))) q) \<and>
     (\<exists>evs. trace (snd (m w)) = trace w @ evs \<and> (\<forall>e \<in> set evs. ok e))"
  shows "keeps Q ok m"
  using assms unfolding keeps_def by blast

lemma keepsD:
  assumes "keeps Q ok m" and "\<forall>q \<in> Q. fs_exists (fs (w::world)) q"
  shows "\<forall>q \<in> Q. fs_exists (fs (snd (m w))) q"
    and "\<exists>evs. trace (snd (m w)) = trace w @ evs \<and> (\<forall>e \<in> set evs. ok e)"
  using assms unfolding keeps_def by blast+

lemma keeps_bindR:
  assumes "keeps Q ok m" and "\<And>x. keeps Q ok (f x)"
  shows "keeps Q ok (bindR m f)"
proof (rule keepsI)
  fix w :: world assume q: "\<forall>q \<in> Q. fs_exists (fs w) q"
  obtain r w1 where mw: "m w = (r, w1)" by (cases "m w")
  have q1: "\<forall>q \<in> Q. fs_exists (fs w1) q" using keepsD(1) [OF assms(1) q] mw by simp
  obtain e1 where e1: "trace w1 = trace w @ e1" "\<forall>e \<in> set e1. ok e"
    using keepsD(2) [OF assms(1) q] mw by auto
  show "(\<forall>q \<in> Q. fs_exists (fs (snd (bindR m f w))) q) \<and>
     (\<exists>evs. trace (snd (bindR m f w)) = trace w @ evs \<and> (\<forall>e \<in> set evs. ok e))"
  proof (cases r)
    case (Inl e)
    then show ?thesis using mw q1 e1 by (auto simp: bindR_def)
  next
    case (Inr x)
    have b: "bindR m f w = f x w1" using mw Inr by (simp add: bindR_def)
    obtain e2 where e2: "trace (snd (f x w1)) = trace w1 @ e2" "\<forall>e \<in> set e2. ok e"
      using keepsD(2) [OF assms(2) q1, of x] by auto
    have "trace (snd (f x w1)) = trace w @ (e1 @ e2)" "\<forall>e \<in> set (e1 @ e2). ok e"
      using e1 e2 by auto
    then show ?thesis using keepsD(1) [OF assms(2) q1, of x] unfolding b by blast
  qed
qed

lemma keeps_silent:
  assumes "\<And>w::world. trace (snd (m w)) = trace w"
    and "\<And>(w::world) q. q \<in> Q \<Longrightarrow> fs_exists (fs w) q \<Longrightarrow> fs_exists (fs (snd (m w))) q"
  shows "keeps Q ok m"
  by (rule keepsI) (auto simp: assms)

lemma keeps_ret: "keeps Q ok (ret x)"
  by (rule keeps_silent) (simp_all add: ret_def)

lemma keeps_raise: "keeps Q ok (raise e)"
  by (rule keeps_silent) (simp_all add: raise_def)

lemma keeps_read: "keeps Q ok (\<lambda>w. (g w, w))"
  by (rule keeps_silent) simp_all

lemma keeps_mkdir: "keeps Q ok (mkdir p)"
  by (rule keeps_silent) (simp_all add: mkdir_def fs_exists_mkdir)

lemma keeps_if: "keeps Q ok a \<Longrightarrow> keeps Q ok b \<Longrightarrow> keeps Q ok (if c then a else b)"
  by simp

lemma keeps_let: "keeps Q ok (f v) \<Longrightarrow> keeps Q ok (let x = v in f x)"
  by simp

lemma keeps_for_each:
  assumes "\<And>x. keeps Q ok (body x)"
  shows "keeps Q ok (for_each body xs)"
  by (induction xs) (auto intro: keeps_ret keeps_bindR assms)

lemma fs_exists_write: "fs_exists f q \<Longrightarrow> fs_exists (fs_write p b f) q"
  by (auto simp: fs_exists_def fs_write_def update_conv')

lemma fs_exists_unlink: "q \<noteq> p \<Longrightarrow> fs_exists f q \<Longrightarrow> fs_exists (fs_unlink p f) q"
  by (simp add: fs_exists_def fs_unlink_def delete_conv')



lemma keeps_unlink: "p \<notin> Q \<Longrightarrow> keeps Q ok (unlink p)"
  by (rule keeps_silent) (auto simp: unlink_def intro!: fs_exists_unlink)

lemma keeps_unlink_if_exists: "p \<notin> Q \<Longrightarrow> keeps Q ok (unlink_if_exists p)"
  by (rule keeps_silent) (auto simp: unlink_if_exists_def unlink_def intro!: fs_exists_unlink)







text \<open>The retry loop of \<^verbatim>\<open>download_streaming\<close> and the conversion that follows it.\<close>

lemma exists_fold_write_chunk:
  "fs_exists (fs w) q \<Longrightarrow> fs_exists (fs (fold (write_chunk tmp) cs w)) q"
  by (induction cs arbitrary: w)
     (auto simp: write_chunk_def fs_exists_write split: option.splits node.splits)

lemma exists_replace:
  "q \<noteq> src \<Longrightarrow> fs_exists (fs w) q \<Longrightarrow> fs_exists (fs (replace src dst w)) q"
  by (auto simp: replace_def fs_exists_def update_conv' delete_conv' split: option.splits)

lemma exists_open_file: "fs_exists (fs w) q \<Longrightarrow> fs_exists (fs (open_file p a w)) q"
  by (auto simp: open_file_def fs_exists_write)

lemma fetch_attempt_events:
  "\<exists>evs. trace (snd (fetch_attempt rem url tmp out hdr pos w)) = trace w @ evs \<and>
         (\<forall>e \<in> set evs. e = Request url hdr \<or> (\<exists>a. e = Open tmp a) \<or>
            (\<exists>c. e = Append tmp c) \<or> e = Replace tmp out)"
proof (cases "net rem (length (filter is_request (trace w))) url hdr")
  case NoReply
  then show ?thesis by (simp add: fetch_attempt_def send_def)
next
  case (Reply st chunks whole)
  then show ?thesis
    by (auto simp: fetch_attempt_def send_def Let_def fold_write_chunk_trace open_file_def
        replace_def)
qed

lemma fetch_attempt_exists:
  assumes "q \<noteq> tmp" and "fs_exists (fs w) q"
  shows "fs_exists (fs (snd (fetch_attempt rem url tmp out hdr pos w))) q"
proof (cases "net rem (length (filter is_request (trace w))) url hdr")
  case NoReply
  then show ?thesis using assms by (simp add: fetch_attempt_def send_def)
next
  case (Reply st chunks whole)
  let ?w1 = "w\<lparr>trace := trace w @ [Request url hdr]\<rparr>"
  have "fs_exists (fs (fold (write_chunk tmp) (filter (\<lambda>c. c \<noteq> []) chunks)
          (open_file tmp (hdr \<noteq> None \<and> 0 < pos) ?w1))) q"
    using assms(2) by (intro exists_fold_write_chunk exists_open_file) simp
  then show ?thesis
    using Reply assms
    by (simp add: fetch_attempt_def send_def Let_def exists_replace)
qed

lemma attempt_loop_keeps:
  assumes "tmp \<notin> Q"
    and "\<And>h. ok (Request url h)" "\<And>n. ok (Sleep n)" "\<And>p a. ok (Open p a)"
    and "\<And>p c. ok (Append p c)" "\<And>a b. ok (Replace a b)"
    and "\<forall>q \<in> Q. fs_exists (fs w) q"
  shows "(\<forall>q \<in> Q. fs_exists (fs (snd (attempt_loop rem url tmp out hdr pos as w))) q) \<and>
         (\<exists>evs. trace (snd (attempt_loop rem url tmp out hdr pos as w)) = trace w @ evs \<and>
                (\<forall>e \<in> set evs. ok e))"
  using assms(7)
proof (induction as arbitrary: w)
  case Nil
  then show ?case by simp
next
  case (Cons a as)
  obtain r w1 where fa: "fetch_attempt rem url tmp out hdr pos w = (r, w1)"
    by (cases "fetch_attempt rem url tmp out hdr pos w")
  note ev = fetch_attempt_events [of rem url tmp out hdr pos w, unfolded fa snd_conv]
  then obtain e1 where e1: "trace w1 = trace w @ e1"
    and k1: "\<forall>e \<in> set e1. e = Request url hdr \<or> (\<exists>a. e = Open tmp a) \<or>
            (\<exists>c. e = Append tmp c) \<or> e = Replace tmp out"
    by (elim exE conjE)
  have ok1: "\<forall>e \<in> set e1. ok e"
  proof
    fix e assume "e \<in> set e1"
    then have "e = Request url hdr \<or> (\<exists>a. e = Open tmp a) \<or>
            (\<exists>c. e = Append tmp c) \<or> e = Replace tmp out" using k1 by blast
    then show "ok e" by (elim disjE exE) (simp_all add: assms(2-6))
  qed
  have q1: "\<forall>q \<in> Q. fs_exists (fs w1) q"
  proof
    fix q assume "q \<in> Q"
    then have "q \<noteq> tmp" "fs_exists (fs w) q" using assms(1) Cons.prems by auto
    from fetch_attempt_exists [OF this, of rem url out hdr pos] show "fs_exists (fs w1) q"
      using fa by simp
  qed
  show ?case
  proof (cases r)
    case (Inr u)
    have step: "attempt_loop rem url tmp out hdr pos (a # as) w = (True, w1)"
      using fa Inr by simp
    show ?thesis unfolding step using e1 ok1 q1 by auto
  next
    case (Inl e)
    let ?w2 = "sleep (min 60 (2 ^ nat a)) w1"
    have q2: "\<forall>q \<in> Q. fs_exists (fs ?w2) q" using q1 by (simp add: sleep_def)
    from Cons.IH [OF q2] obtain e2 where
      x: "\<forall>q \<in> Q. fs_exists (fs (snd (attempt_loop rem url tmp out hdr pos as ?w2))) q"
      and e2: "trace (snd (attempt_loop rem url tmp out hdr pos as ?w2)) = trace ?w2 @ e2"
        "\<forall>e \<in> set e2. ok e"
      by blast
    define evs where "evs = e1 @ Sleep (min 60 (2 ^ nat a)) # e2"
    have t: "trace (snd (attempt_loop rem url tmp out hdr pos as ?w2)) = trace w @ evs"
      using e2(1) e1 by (simp add: sleep_def evs_def)
    have o: "\<forall>e \<in> set evs. ok e"
      using ok1 e2(2) assms(3) by (auto simp: evs_def)
    have step: "attempt_loop rem url tmp out hdr pos (a # as) w =
        attempt_loop rem url tmp out hdr pos as ?w2"
      using fa Inl by simp
    show ?thesis unfolding step using x t o by blast
  qed
qed

lemma with_suffix_part_Inr:
  "with_suffix p (path_suffix p @ s) = Inr x \<Longrightarrow> x = p @ s"
  using with_suffix_part [of p s] by (cases "path_name p = []") (simp_all add: with_suffix_def)

lemma keeps_download_streaming:
  assumes "out_path @ ''.part'' \<notin> Q"
    and "\<And>h. ok (Request url h)" "\<And>n. ok (Sleep n)" "\<And>p a. ok (Open p a)"
    and "\<And>p c. ok (Append p c)" "\<And>a b. ok (Replace a b)"
  shows "keeps Q ok (download_streaming rem url out_path overwrite retries)"
proof (rule keepsI)
  fix w :: world assume q: "\<forall>q \<in> Q. fs_exists (fs w) q"
  define w1 where "w1 = w\<lparr>fs := fs_mkdir (path_parent out_path) (fs w)\<rparr>"
  have q1: "\<forall>q \<in> Q. fs_exists (fs w1) q" using q by (simp add: w1_def fs_exists_mkdir)
  have t1: "trace w1 = trace w" by (simp add: w1_def)
  let ?goal = "(\<forall>q \<in> Q. fs_exists (fs (snd (download_streaming rem url out_path overwrite retries w))) q) \<and>
     (\<exists>evs. trace (snd (download_streaming rem url out_path overwrite retries w)) = trace w @ evs \<and>
            (\<forall>e \<in> set evs. ok e))"
  show ?goal
  proof (cases "path_exists w out_path \<and> \<not> overwrite")
    case True
    then have "download_streaming rem url out_path overwrite retries w = (Inr (), w)"
      by (simp add: download_streaming_def)
    then show ?thesis using q by simp
  next
    case False
    show ?thesis
    proof (cases "with_suffix out_path (path_suffix out_path @ ''.part'')")
      case (Inl e)
      then have "download_streaming rem url out_path overwrite retries w = (Inl e, w1)"
        using False by (auto simp: download_streaming_def Let_def w1_def)
      then show ?thesis using q1 t1 by simp
    next
      case (Inr tmp)
      have tmp: "tmp = out_path @ ''.part''" using Inr by (rule with_suffix_part_Inr)
      define pos where "pos = (if path_exists w1 tmp then file_size w1 tmp else 0)"
      define hdr where "hdr = (if pos > 0 \<and> \<not> overwrite
                           then Some (''bytes='' @ str_nat pos @ ''-'') else None)"
      have eq: "snd (download_streaming rem url out_path overwrite retries w) =
          snd (attempt_loop rem url tmp out_path hdr pos [1..retries] w1)"
        using False Inr
        by (auto simp: download_streaming_def Let_def w1_def [symmetric] pos_def hdr_def
            split: prod.splits bool.splits)
      have "tmp \<notin> Q" using assms(1) tmp by simp
      from attempt_loop_keeps [OF this assms(2-6) q1, of rem out_path hdr pos "[1..retries]"]
      show ?thesis unfolding eq t1 .
    qed
  qed
qed

lemma keeps_nc_to_geotiff_and_delete:
  assumes "nc_path \<notin> Q" and "nc_path @ ''.part'' \<notin> Q"
  shows "keeps Q ok (nc_to_geotiff_and_delete rem nc_path tif_path overwrite_tif)"
proof -
  have part: "keeps Q ok (\<lambda>w. unlink_if_exists part w)"
    if "with_suffix nc_path (path_suffix nc_path @ ''.part'') = Inr part" for part
    using with_suffix_part_Inr [OF that] assms(2) by (simp add: keeps_unlink_if_exists)
  have ws: "keeps Q ok (bindR (\<lambda>w. (with_suffix nc_path (path_suffix nc_path @ ''.part''), w))
              (\<lambda>part. unlink_if_exists part))"
  proof (cases "with_suffix nc_path (path_suffix nc_path @ ''.part'')")
    case (Inl e)
    then have "bindR (\<lambda>w. (with_suffix nc_path (path_suffix nc_path @ ''.part''), w))
              (\<lambda>part. unlink_if_exists part) = raise e"
      by (rule_tac ext) (simp add: bindR_def raise_def)
    then show ?thesis by (simp add: keeps_raise)
  next
    case (Inr part)
    then have "bindR (\<lambda>w. (with_suffix nc_path (path_suffix nc_path @ ''.part''), w))
              (\<lambda>part. unlink_if_exists part) = unlink_if_exists part"
      by (rule_tac ext) (simp add: bindR_def)
    then show ?thesis using part [OF Inr] by simp
  qed
  have gdal: "keeps Q ok (\<lambda>w. case gdal_translate rem nc_path (fs w) of
                      Inl e \<Rightarrow> (Inl e, w)
                    | Inr tif \<Rightarrow> (Inr (), w\<lparr>fs := fs_write tif_path tif (fs w)\<rparr>))"
    by (rule keeps_silent) (auto simp: fs_exists_write split: sum.splits)
  show ?thesis
    unfolding nc_to_geotiff_and_delete_def
    by (intro keeps_bindR keeps_read keeps_if keeps_raise keeps_unlink_if_exists keeps_unlink
        ws gdal assms)
qed







lemma keeps_with_part:
  assumes "keeps Q ok (f (nc_path @ ''.part''))"
  shows "keeps Q ok (bindR (\<lambda>w. (with_suffix nc_path (path_suffix nc_path @ ''.part''), w)) f)"
proof (cases "with_suffix nc_path (path_suffix nc_path @ ''.part'')")
  case (Inl e)
  then have "bindR (\<lambda>w. (with_suffix nc_path (path_suffix nc_path @ ''.part''), w)) f = raise e"
    by (rule_tac ext) (simp add: bindR_def raise_def)
  then show ?thesis by (simp add: keeps_raise)
next
  case (Inr part)
  then have "bindR (\<lambda>w. (with_suffix nc_path (path_suffix nc_path @ ''.part''), w)) f = f part"
    by (rule_tac ext) (simp add: bindR_def)
  then show ?thesis using assms with_suffix_part_Inr [OF Inr] by simp
qed

lemma keeps_dem_job:
  assumes "path_join out_dir (ds @ ''.nc'') \<notin> Q"
    and "path_join out_dir (ds @ ''.nc'') @ ''.part'' \<notin> Q"
    and "\<And>h. ok (Request (pacioos_build_ncss_url base ds) h)" "\<And>n. ok (Sleep n)"
    and "\<And>p a. ok (Open p a)" "\<And>p c. ok (Append p c)" "\<And>a b. ok (Replace a b)"
  shows "keeps Q ok (dem_job rem out_dir base overwrite_tif overwrite_nc ds)"
  unfolding dem_job_def Let_def
  by (intro keeps_bindR keeps_read keeps_if keeps_with_part keeps_unlink_if_exists
      keeps_download_streaming keeps_nc_to_geotiff_and_delete assms)




lemma keeps_download_pacioos_dems_no_write:
  "keeps {} (\<lambda>e. \<forall>p. e \<noteq> Write p)
     (download_pacioos_dems rem raw_dir dem_dir base ids overwrite_tif overwrite_nc)"
  unfolding download_pacioos_dems_def Let_def
  by (intro keeps_bindR keeps_mkdir keeps_for_each keeps_dem_job) simp_all






















text \<open>The run of the witness: only \<^verbatim>\<open>oahu\<close> is fetched in the DEM stage.\<close>

lemma main_partial_rerun_sample:
  "main range_remote 3 ''raw'' [(''coast'', ''http://z/coast.zip'')]
       [(''slope'', ''http://api/slope'')] ''dem'' ''http://ncss'' [''maui'', ''oahu'']
       False False False raw_done_world =
     (Inr (),
      raw_done_world
        \<lparr>fs := [(''raw/coast'', Dir), (''raw/coast/coast.shp'', File ''shape''),
                 (''raw/slope'', Dir), (''raw/slope/a.tif'', File ''abcdef''),
                 (''raw/dem'', Dir), (''raw/dem/maui.tif'', File ''tif''),
                 (''raw/dem/oahu.tif'', File ''tif'')],
         trace := [Request ''http://z/coast.zip'' None, Write ''raw/coast/coast.zip'',
                   Write ''raw/coast/coast.shp'', Request ''http://api/slope'' None,
                   Request ''http://ncss/oahu?var=elev&horizStride=1&accept=netcdf'' None,
                   Open ''raw/dem/oahu.nc.part'' False,
                   Append ''raw/dem/oahu.nc.part'' ''abcdef'',
                   Replace ''raw/dem/oahu.nc.part'' ''raw/dem/oahu.nc'']\<rparr>)"
  by code_simp

end
